theory Spec2Isabelle
  imports Complex_Main "HOL-Library.Word" "HOL-Library.Signed_Division" "HOL-Library.Log_Nat"
begin

section \<open>Proximity-scaled alarm: the sense, smooth, map, drive loop\<close>

text \<open>
  The sketch exists in two variants. The first (functions \<open>readAndSmoothDistanceMm\<close>,
  \<open>medianOf3_allowInvalid\<close>, \<open>computePatternFromDistance\<close>, \<open>driveOutputs\<close>,
  \<open>logStatus\<close>) leaves its tunable constants open; the second does everything inside
  \<open>loop\<close> and fixes the constants.

  The C type \<open>int\<close> is modelled by \<open>int\<close>. Signed overflow is undefined in C and has
  no place in the model, so the theorems stay where it cannot happen on any width of
  \<open>int\<close> (16 bits on the AVR boards): buffer entries are samples, between \<open>-1\<close> and
  \<open>6000\<close>, so the sum of two of them is at most \<open>12000\<close>; tunables are non-negative
  16-bit values, so their differences and every period and tone computed from them are
  16-bit values too. The theorems carry these ranges as hypotheses.
  \<open>unsigned long\<close> is a 32-bit word, whose subtraction wraps.
\<close>

type_synonym ulong = "32 word"

subsection \<open>Single-precision arithmetic\<close>

text \<open>
  A finite \<open>float\<close> is the rational number it denotes. Every operation of the sketch on
  \<open>float\<close> is the exact operation followed by rounding to the nearest binary32 value,
  ties to the even significand (24 bits of precision, quantum at least \<open>2\<^sup>-\<^sup>1\<^sup>4\<^sup>9\<close>, so
  subnormal results are covered). Results of magnitude \<open>2\<^sup>1\<^sup>2\<^sup>8\<close> or more (infinities)
  and NaN are outside the model; no operation of the sketch produces one as long as the
  tunables are 16-bit values and the divisor \<open>FAR - NEAR\<close> is not zero, which the
  theorems about the mapping assume.
\<close>

type_synonym float = rat

text \<open>The number of binary digits of a positive integer.\<close>

function bitlen :: "int \<Rightarrow> int" where
  "bitlen n = (if n \<le> 0 then 0 else bitlen (n div 2) + 1)"
  by pat_completeness auto
termination
  by (relation "measure nat") auto

declare bitlen.simps [simp del]

text \<open>\<open>ilog2 x\<close> is the integer \<open>e\<close> with \<open>2\<^sup>e \<le> x < 2\<^sup>e\<^sup>+\<^sup>1\<close>, for positive \<open>x\<close>.\<close>

definition ilog2 :: "rat \<Rightarrow> int" where
  "ilog2 x = (if 1 \<le> x then bitlen \<lfloor>x\<rfloor> - 1 else - bitlen (\<lceil>1 / x\<rceil> - 1))"

text \<open>Rounding to the nearest integer, ties to even.\<close>

definition round_even :: "rat \<Rightarrow> int" where
  "round_even x =
     (let f = \<lfloor>x\<rfloor>; d = x - of_int f
      in if d < 1 / 2 then f else if 1 / 2 < d then f + 1 else if even f then f else f + 1)"

text \<open>
  The quantum exponent of a non-zero \<open>x\<close> at \<open>prec\<close> significant bits, bounded below by
  \<open>emin\<close>: the results of rounding are the integer multiples of \<open>2\<close> to that power.
\<close>

definition qexp :: "nat \<Rightarrow> int \<Rightarrow> rat \<Rightarrow> int" where
  "qexp prec emin x = max (ilog2 \<bar>x\<bar> - (int prec - 1)) emin"

text \<open>
  Rounding to \<open>prec\<close> significant bits: binary32 is \<open>round_to 24 (-149)\<close>, binary64 is
  \<open>round_to 53 (-1074)\<close>.
\<close>

definition round_to :: "nat \<Rightarrow> int \<Rightarrow> rat \<Rightarrow> rat" where
  "round_to prec emin x =
     (if x = 0 then 0
      else (let e = qexp prec emin x
            in of_int (round_even (x / 2 powi e)) * 2 powi e))"

definition f32 :: "rat \<Rightarrow> float" where
  "f32 = round_to 24 (-149)"

definition f64 :: "rat \<Rightarrow> rat" where
  "f64 = round_to 53 (-1074)"

definition fadd :: "float \<Rightarrow> float \<Rightarrow> float" where
  "fadd x y = f32 (x + y)"

definition fsub :: "float \<Rightarrow> float \<Rightarrow> float" where
  "fsub x y = f32 (x - y)"

definition fmul :: "float \<Rightarrow> float \<Rightarrow> float" where
  "fmul x y = f32 (x * y)"

definition fdiv :: "float \<Rightarrow> float \<Rightarrow> float" where
  "fdiv x y = f32 (x / y)"

text \<open>Conversions: \<open>(float)n\<close> rounds, \<open>(int)x\<close> and \<open>(unsigned long)x\<close> truncate towards zero.\<close>

definition int_to_float :: "int \<Rightarrow> float" where
  "int_to_float n = f32 (of_int n)"

definition ulong_to_float :: "ulong \<Rightarrow> float" where
  "ulong_to_float u = f32 (of_int (uint u))"

definition float_to_int :: "float \<Rightarrow> int" where
  "float_to_int x = (if 0 \<le> x then \<lfloor>x\<rfloor> else \<lceil>x\<rceil>)"

definition float_to_ulong :: "float \<Rightarrow> ulong" where
  "float_to_ulong x = word_of_int (float_to_int x)"

subsection \<open>Pins, constants and output events\<close>

definition PIN_TRIG :: nat where "PIN_TRIG = 10"
definition PIN_ECHO :: nat where "PIN_ECHO = 9"
definition PIN_LED_GREEN :: nat where "PIN_LED_GREEN = 3"
definition PIN_LED_RED :: nat where "PIN_LED_RED = 4"
definition PIN_BUZZER :: nat where "PIN_BUZZER = 11"

text \<open>The pin macros of the second variant.\<close>

definition TRIG :: nat where "TRIG = 10"
definition ECHO :: nat where "ECHO = 9"
definition LED_GREEN :: nat where "LED_GREEN = 3"
definition LED_RED :: nat where "LED_RED = 4"
definition BUZZER :: nat where "BUZZER = 11"

definition TIMEOUT_US :: ulong where "TIMEOUT_US = 38000"

abbreviation (input) HIGH :: bool where "HIGH \<equiv> True"
abbreviation (input) LOW :: bool where "LOW \<equiv> False"

text \<open>
  The tunables of the first variant are open in the source; they are the fields of a
  record that every function of that variant takes. \<open>ON_FRACTION\<close> is \<open>0.30f\<close> there.
\<close>

record tunables =
  FAR_DISTANCE_MM :: int
  NEAR_DISTANCE_MM :: int
  MAX_PERIOD_MS :: int
  MIN_PERIOD_MS :: int
  TONE_MIN_HZ :: int
  TONE_MAX_HZ :: int

definition ON_FRACTION :: float where
  "ON_FRACTION = f32 (3 / 10)"

text \<open>
  The constants of the second variant. Its \<open>ON_FRACTION\<close> is initialised from the
  \<open>double\<close> literal \<open>0.30\<close>.
\<close>

definition FAR_MM :: int where "FAR_MM = 1500"
definition NEAR_MM :: int where "NEAR_MM = 150"
definition MAX_PERIOD_MS_2 :: int where "MAX_PERIOD_MS_2 = 1600"
definition MIN_PERIOD_MS_2 :: int where "MIN_PERIOD_MS_2 = 110"
definition ON_FRACTION_2 :: float where "ON_FRACTION_2 = f32 (f64 (3 / 10))"
definition TONE_MIN_HZ_2 :: int where "TONE_MIN_HZ_2 = 400"
definition TONE_MAX_HZ_2 :: int where "TONE_MAX_HZ_2 = 1600"

text \<open>The first variant with the constants of the second.\<close>

definition tunables_2 :: tunables where
  "tunables_2 = \<lparr>FAR_DISTANCE_MM = 1500, NEAR_DISTANCE_MM = 150, MAX_PERIOD_MS = 1600,
     MIN_PERIOD_MS = 110, TONE_MIN_HZ = 400, TONE_MAX_HZ = 1600\<rparr>"

text \<open>
  Sensible tunables: the near boundary inside the far one, the fast period not above
  the slow one, the low pitch not above the high one, everything a non-negative 16-bit
  \<open>int\<close>.
\<close>

definition tunables_ok :: "tunables \<Rightarrow> bool" where
  "tunables_ok cfg =
     (0 \<le> NEAR_DISTANCE_MM cfg \<and> NEAR_DISTANCE_MM cfg < FAR_DISTANCE_MM cfg
      \<and> FAR_DISTANCE_MM cfg \<le> 32767
      \<and> 0 \<le> MIN_PERIOD_MS cfg \<and> MIN_PERIOD_MS cfg \<le> MAX_PERIOD_MS cfg
      \<and> MAX_PERIOD_MS cfg \<le> 32767
      \<and> 0 \<le> TONE_MIN_HZ cfg \<and> TONE_MIN_HZ cfg \<le> TONE_MAX_HZ cfg
      \<and> TONE_MAX_HZ cfg \<le> 32767)"

text \<open>What the sketch does to the outside world, in the order it does it.\<close>

datatype event =
    DigitalWrite nat bool
  | Tone nat int
  | NoTone nat
  | DelayMicroseconds nat
  | Delay nat
  | PulseIn nat bool ulong
  | Print string
  | PrintInt int
  | PrintlnInt int

record PatternState =
  phaseStartMs :: ulong
  phaseOn :: bool

record PatternParams =
  periodMs :: int
  toneHz :: int
  onMs :: ulong
  offMs :: ulong

subsection \<open>Sampling\<close>

text \<open>
  \<open>readDistanceMmOnce\<close>; \<open>us\<close> is what \<open>pulseIn\<close> returns. \<open>readDistanceMm\<close> of the second
  variant is the same function on its own pin names.
\<close>

definition readDistanceMmOnce :: "ulong \<Rightarrow> int \<times> event list" where
  "readDistanceMmOnce us =
     (let io = [DigitalWrite PIN_TRIG LOW, DelayMicroseconds 2,
                DigitalWrite PIN_TRIG HIGH, DelayMicroseconds 10,
                DigitalWrite PIN_TRIG LOW, PulseIn PIN_ECHO HIGH TIMEOUT_US]
      in if us = 0 then (-1, io)
         else (let mm = fmul (fmul (ulong_to_float us) (f32 (343 / 1000))) (1 / 2)
               in if mm < 0 \<or> mm > 6000 then (-1, io)
                  else (float_to_int (fadd mm (1 / 2)), io)))"

definition readDistanceMm :: "ulong \<Rightarrow> int \<times> event list" where
  "readDistanceMm us =
     (let io = [DigitalWrite TRIG LOW, DelayMicroseconds 2,
                DigitalWrite TRIG HIGH, DelayMicroseconds 10,
                DigitalWrite TRIG LOW, PulseIn ECHO HIGH TIMEOUT_US]
      in if us = 0 then (-1, io)
         else (let mm = fmul (fmul (ulong_to_float us) (f32 (343 / 1000))) (1 / 2)
               in if mm < 0 \<or> mm > 6000 then (-1, io)
                  else (float_to_int (fadd mm (1 / 2)), io)))"

subsection \<open>Smoothing: the median of three samples that tolerates invalid ones\<close>

text \<open>A distance sample is a number of millimetres from 0 to 6000, or \<open>-1\<close> (invalid).\<close>

definition is_sample :: "int \<Rightarrow> bool" where
  "is_sample x = (-1 \<le> x \<and> x \<le> 6000)"

text \<open>
  One compare-and-swap step of the three-element sort:
  \<^verbatim>\<open>if (tmp[i] > tmp[j]) { int t = tmp[i]; tmp[i] = tmp[j]; tmp[j] = t; }\<close>
\<close>

definition swap_if_greater :: "nat \<Rightarrow> nat \<Rightarrow> int list \<Rightarrow> int list" where
  "swap_if_greater i j tmp =
     (if tmp ! i > tmp ! j then (let t = tmp ! i; tmp = tmp[i := tmp ! j] in tmp[j := t]) else tmp)"

text \<open>
  \<open>medianOf3_allowInvalid\<close> of the first variant. The array \<open>tmp\<close> with its fill count
  \<open>n\<close> is the list of the entries stored so far; \<open>tmp[n++] = a\<close> appends. The division
  of C truncates towards zero (\<open>sdiv\<close>).
\<close>

definition medianOf3_allowInvalid :: "int \<Rightarrow> int \<Rightarrow> int \<Rightarrow> int" where
  "medianOf3_allowInvalid a b c =
     (let tmp = [];
          tmp = (if a \<ge> 0 then tmp @ [a] else tmp);
          tmp = (if b \<ge> 0 then tmp @ [b] else tmp);
          tmp = (if c \<ge> 0 then tmp @ [c] else tmp);
          n = length tmp
      in if n = 0 then -1
         else if n = 1 then tmp ! 0
         else if n = 2 then (tmp ! 0 + tmp ! 1) sdiv 2
         else (let tmp = swap_if_greater 0 1 tmp;
                   tmp = swap_if_greater 1 2 tmp;
                   tmp = swap_if_greater 0 1 tmp
               in tmp ! 1))"

text \<open>
  \<open>median3\<close> of the second variant: the same rule, the valid entries collected by a loop
  over \<open>v[0..2]\<close>.
\<close>

definition median3 :: "int \<Rightarrow> int \<Rightarrow> int \<Rightarrow> int" where
  "median3 a b c =
     (let v = [a, b, c];
          buf = foldl (\<lambda>buf i. if v ! i \<ge> 0 then buf @ [v ! i] else buf) [] [0..<3];
          validCount = length buf
      in if validCount = 0 then -1
         else if validCount = 1 then buf ! 0
         else if validCount = 2 then (buf ! 0 + buf ! 1) sdiv 2
         else (let buf = swap_if_greater 0 1 buf;
                   buf = swap_if_greater 1 2 buf;
                   buf = swap_if_greater 0 1 buf
               in buf ! 1))"


subsection \<open>Mapping proximity to a cadence\<close>

text \<open>
  The last two statements of \<open>computePatternFromDistance\<close>, which the second variant
  repeats inside \<open>loop\<close>: the ON/OFF split of a period. \<open>periodMs - onMs\<close> is computed in
  \<open>unsigned long\<close>.
\<close>

definition onOffSplit :: "float \<Rightarrow> int \<Rightarrow> ulong \<times> ulong" where
  "onOffSplit fraction period =
     (let on = float_to_ulong (fmul (int_to_float period) fraction);
          off = word_of_int period - on
      in (on, off))"

definition computePatternFromDistance :: "tunables \<Rightarrow> int \<Rightarrow> bool \<Rightarrow> PatternParams" where
  "computePatternFromDistance cfg smoothedMm inRange =
     (let (period, tone) =
            (if inRange then
               (let norm = fdiv (int_to_float (FAR_DISTANCE_MM cfg - smoothedMm))
                                (int_to_float (FAR_DISTANCE_MM cfg - NEAR_DISTANCE_MM cfg));
                    norm = (if norm < 0 then 0 else norm);
                    norm = (if norm > 1 then 1 else norm);
                    ease = fmul (fmul norm norm) norm
                in (float_to_int
                      (fadd (fsub (int_to_float (MAX_PERIOD_MS cfg))
                                  (fmul ease (int_to_float (MAX_PERIOD_MS cfg - MIN_PERIOD_MS cfg))))
                            (1 / 2)),
                    float_to_int
                      (fadd (fadd (int_to_float (TONE_MIN_HZ cfg))
                                  (fmul ease (int_to_float (TONE_MAX_HZ cfg - TONE_MIN_HZ cfg))))
                            (1 / 2))))
             else (MAX_PERIOD_MS cfg, TONE_MIN_HZ cfg));
          (on, off) = onOffSplit ON_FRACTION period
      in \<lparr>periodMs = period, toneHz = tone, onMs = on, offMs = off\<rparr>)"

text \<open>Step 3 of \<open>loop\<close> in the second variant: \<open>periodMs\<close> and \<open>toneHz\<close>.\<close>

definition cadence_2 :: "int \<Rightarrow> bool \<Rightarrow> int \<times> int" where
  "cadence_2 smoothed inRange =
     (if inRange then
        (let p = fdiv (int_to_float (FAR_MM - smoothed)) (int_to_float (FAR_MM - NEAR_MM));
             p = (if p < 0 then 0 else p);
             p = (if p > 1 then 1 else p);
             e = fmul (fmul p p) p
         in (float_to_int
               (fadd (fsub (int_to_float MAX_PERIOD_MS_2)
                           (fmul e (int_to_float (MAX_PERIOD_MS_2 - MIN_PERIOD_MS_2))))
                     (1 / 2)),
             float_to_int
               (fadd (fadd (int_to_float TONE_MIN_HZ_2)
                           (fmul e (int_to_float (TONE_MAX_HZ_2 - TONE_MIN_HZ_2))))
                     (1 / 2))))
      else (MAX_PERIOD_MS_2, TONE_MIN_HZ_2))"

text \<open>
  Names for the intermediate values of the in-range branch (the eased proximity, and the
  period and tone interpolated from it), to state lemmas about them.
\<close>

definition ease_of :: "int \<Rightarrow> int \<Rightarrow> int \<Rightarrow> float" where
  "ease_of far near smoothed =
     (let norm = fdiv (int_to_float (far - smoothed)) (int_to_float (far - near));
          norm = (if norm < 0 then 0 else norm);
          norm = (if norm > 1 then 1 else norm)
      in fmul (fmul norm norm) norm)"

definition period_of :: "int \<Rightarrow> int \<Rightarrow> float \<Rightarrow> int" where
  "period_of hi lo ease =
     float_to_int (fadd (fsub (int_to_float hi) (fmul ease (int_to_float (hi - lo)))) (1 / 2))"

definition tone_of :: "int \<Rightarrow> int \<Rightarrow> float \<Rightarrow> int" where
  "tone_of lo hi ease =
     float_to_int (fadd (fadd (int_to_float lo) (fmul ease (int_to_float (hi - lo)))) (1 / 2))"

subsection \<open>Driving the outputs\<close>

text \<open>\<open>driveOutputs\<close>; \<open>now\<close> is what \<open>millis\<close> returns.\<close>

definition driveOutputs ::
  "bool \<Rightarrow> PatternParams \<Rightarrow> PatternState \<Rightarrow> ulong \<Rightarrow> PatternState \<times> event list" where
  "driveOutputs inRange p s now =
     (if \<not> inRange then
        (s\<lparr>phaseOn := False, phaseStartMs := 0\<rparr>,
         [DigitalWrite PIN_LED_RED LOW, NoTone PIN_BUZZER, DigitalWrite PIN_LED_GREEN HIGH])
      else if phaseStartMs s = 0 then
        (s\<lparr>phaseStartMs := now, phaseOn := True\<rparr>,
         [DigitalWrite PIN_LED_GREEN LOW, DigitalWrite PIN_LED_RED HIGH,
          Tone PIN_BUZZER (toneHz p)])
      else if phaseOn s then
        (if now - phaseStartMs s \<ge> onMs p then
           (s\<lparr>phaseOn := False, phaseStartMs := now\<rparr>,
            [DigitalWrite PIN_LED_GREEN LOW, DigitalWrite PIN_LED_RED LOW, NoTone PIN_BUZZER])
         else (s, [DigitalWrite PIN_LED_GREEN LOW]))
      else
        (if now - phaseStartMs s \<ge> offMs p then
           (s\<lparr>phaseOn := True, phaseStartMs := now\<rparr>,
            [DigitalWrite PIN_LED_GREEN LOW, DigitalWrite PIN_LED_RED HIGH,
             Tone PIN_BUZZER (toneHz p)])
         else (s, [DigitalWrite PIN_LED_GREEN LOW])))"

text \<open>
  Step 4 of \<open>loop\<close> in the second variant. Its globals \<open>phaseStartMs\<close> and \<open>phaseOn\<close> are
  kept in a \<open>PatternState\<close>. Starting a new cycle does not return: the phase test below
  it runs in the same tick.
\<close>

definition drive_2 ::
  "bool \<Rightarrow> int \<Rightarrow> int \<Rightarrow> PatternState \<Rightarrow> ulong \<Rightarrow> PatternState \<times> event list" where
  "drive_2 inRange period tone s now =
     (if \<not> inRange then
        (s\<lparr>phaseOn := False, phaseStartMs := 0\<rparr>,
         [DigitalWrite LED_RED LOW, NoTone BUZZER, DigitalWrite LED_GREEN HIGH])
      else
        (let io = [DigitalWrite LED_GREEN LOW];
             (s, io) = (if phaseStartMs s = 0
                        then (s\<lparr>phaseStartMs := now, phaseOn := True\<rparr>,
                              io @ [DigitalWrite LED_RED HIGH, Tone BUZZER tone])
                        else (s, io));
             (on, off) = onOffSplit ON_FRACTION_2 period
         in if phaseOn s then
              (if now - phaseStartMs s \<ge> on then
                 (s\<lparr>phaseOn := False, phaseStartMs := now\<rparr>,
                  io @ [DigitalWrite LED_RED LOW, NoTone BUZZER])
               else (s, io))
            else
              (if now - phaseStartMs s \<ge> off then
                 (s\<lparr>phaseOn := True, phaseStartMs := now\<rparr>,
                  io @ [DigitalWrite LED_RED HIGH, Tone BUZZER tone])
               else (s, io))))"

subsection \<open>The loop\<close>

definition logStatus :: "int \<Rightarrow> bool \<Rightarrow> PatternParams \<Rightarrow> event list" where
  "logStatus smoothedMm inRange p =
     [Print ''mm='', PrintInt smoothedMm,
      Print ''  inRange='', PrintInt (if inRange then 1 else 0),
      Print ''  periodMs='', PrintInt (periodMs p),
      Print ''  toneHz='', PrintlnInt (toneHz p)]"

text \<open>The globals of the first variant.\<close>

record sketch =
  distanceBuf :: "int list"
  distanceIdx :: "8 word"
  pattern :: PatternState

definition initial_sketch :: sketch where
  "initial_sketch = \<lparr>distanceBuf = [-1, -1, -1], distanceIdx = 0,
     pattern = \<lparr>phaseStartMs = 0, phaseOn = False\<rparr>\<rparr>"

definition readAndSmoothDistanceMm :: "sketch \<Rightarrow> ulong \<Rightarrow> sketch \<times> int \<times> event list" where
  "readAndSmoothDistanceMm st us =
     (let (mm, io) = readDistanceMmOnce us;
          buf = (distanceBuf st)[unat (distanceIdx st) := mm];
          st = st\<lparr>distanceBuf := buf,
                  distanceIdx := word_of_int ((uint (distanceIdx st) + 1) smod 3)\<rparr>
      in (st, medianOf3_allowInvalid (buf ! 0) (buf ! 1) (buf ! 2), io))"

text \<open>
  One pass of \<open>loop\<close> in the first variant: the echo width \<open>us\<close> and the clock \<open>now\<close> are
  its inputs, the new globals and the events of the pass its results.
\<close>

definition loop :: "tunables \<Rightarrow> sketch \<Rightarrow> ulong \<Rightarrow> ulong \<Rightarrow> sketch \<times> event list" where
  "loop cfg st us now =
     (let (st, smoothedMm, io1) = readAndSmoothDistanceMm st us;
          valid = (smoothedMm \<ge> 0);
          inRange = (valid \<and> smoothedMm \<le> FAR_DISTANCE_MM cfg);
          params = computePatternFromDistance cfg smoothedMm inRange;
          (s, io2) = driveOutputs inRange params (pattern st) now
      in (st\<lparr>pattern := s\<rparr>, io1 @ io2 @ logStatus smoothedMm inRange params @ [Delay 30]))"

text \<open>The globals of the second variant and one pass of its \<open>loop\<close>.\<close>

record sketch_2 =
  last3 :: "int list"
  idx :: int
  phase :: PatternState

definition initial_sketch_2 :: sketch_2 where
  "initial_sketch_2 = \<lparr>last3 = [-1, -1, -1], idx = 0,
     phase = \<lparr>phaseStartMs = 0, phaseOn = False\<rparr>\<rparr>"

definition loop_2 :: "sketch_2 \<Rightarrow> ulong \<Rightarrow> ulong \<Rightarrow> sketch_2 \<times> event list" where
  "loop_2 st us now =
     (let (mm, io1) = readDistanceMm us;
          buf = (last3 st)[nat (idx st) := mm];
          st = st\<lparr>last3 := buf, idx := (idx st + 1) smod 3\<rparr>;
          smoothed = median3 (buf ! 0) (buf ! 1) (buf ! 2);
          valid = (smoothed \<ge> 0);
          inRange = (valid \<and> smoothed \<le> FAR_MM);
          (period, tone) = cadence_2 smoothed inRange;
          (s, io2) = drive_2 inRange period tone (phase st) now
      in (st\<lparr>phase := s\<rparr>,
          io1 @ io2 @
          [Print ''mm='', PrintInt smoothed,
           Print ''  inRange='', PrintInt (if inRange then 1 else 0),
           Print ''  periodMs='', PrintInt period,
           Print ''  toneHz='', PrintlnInt tone,
           Delay 30]))"

text \<open>Running the loop over a sequence of inputs (echo width, clock), events in order.\<close>

fun run :: "tunables \<Rightarrow> sketch \<Rightarrow> (ulong \<times> ulong) list \<Rightarrow> sketch \<times> event list" where
  "run cfg st [] = (st, [])"
| "run cfg st ((us, now) # rest) =
     (let (st, io) = loop cfg st us now; (st, io') = run cfg st rest in (st, io @ io'))"

fun run_2 :: "sketch_2 \<Rightarrow> (ulong \<times> ulong) list \<Rightarrow> sketch_2 \<times> event list" where
  "run_2 st [] = (st, [])"
| "run_2 st ((us, now) # rest) =
     (let (st, io) = loop_2 st us now; (st, io') = run_2 st rest in (st, io @ io'))"

text \<open>
  When the globals of the two variants hold the same values: the buffers and the phase
  state are equal and the write indices denote the same number.
\<close>

definition same_globals :: "sketch \<Rightarrow> sketch_2 \<Rightarrow> bool" where
  "same_globals st st2 =
     (distanceBuf st = last3 st2 \<and> uint (distanceIdx st) = idx st2 \<and> pattern st = phase st2)"

section \<open>Verified properties\<close>

subsection \<open>Rounding is monotone and exact on representable numbers\<close>

lemma bitlen_floorlog: "bitlen n = int (floorlog 2 (nat n))"
proof (induction n rule: bitlen.induct)
  case (1 n)
  show ?case
  proof (cases "n \<le> 0")
    case True
    then show ?thesis by (simp add: bitlen.simps [of n] floorlog_def)
  next
    case False
    then have "bitlen n = int (floorlog 2 (nat (n div 2))) + 1"
      using 1 by (simp add: bitlen.simps [of n])
    also have "nat (n div 2) = nat n div 2" by (simp add: nat_div_distrib)
    also have "int (floorlog 2 (nat n div 2)) + 1 = int (floorlog 2 (nat n))"
      using False by (subst (2) compute_floorlog) simp
    finally show ?thesis .
  qed
qed

lemma ilog2_floorlog:
  "ilog2 x = (if 1 \<le> x then int (floorlog 2 (nat \<lfloor>x\<rfloor>)) - 1
              else - int (floorlog 2 (nat (\<lceil>1 / x\<rceil> - 1))))"
  by (simp add: ilog2_def bitlen_floorlog)

lemma ilog2_ge1:
  assumes "1 \<le> x"
  shows "2 powi ilog2 x \<le> x" and "x < 2 powi (ilog2 x + 1)"
proof -
  define n where "n = nat \<lfloor>x\<rfloor>"
  define k where "k = floorlog 2 n"
  have f1: "1 \<le> \<lfloor>x\<rfloor>" using assms by simp
  have n1: "1 \<le> n" unfolding n_def using f1 by linarith
  have b: "2 ^ (k - 1) \<le> n" "n < 2 ^ k"
    using floorlog_bounds [of n 2] n1 by (simp_all add: k_def)
  have k1: "1 \<le> k" using b(2) n1 by (cases k) auto
  have il: "ilog2 x = int k - 1" using assms by (simp add: ilog2_floorlog k_def n_def)
  have rn: "rat_of_nat n = of_int \<lfloor>x\<rfloor>" unfolding n_def using f1 by simp
  have nx: "rat_of_nat n \<le> x" unfolding rn by (rule of_int_floor_le)
  have xn: "x < rat_of_nat n + 1" unfolding rn by linarith
  have p1: "(2::rat) powi (int k - 1) = 2 ^ (k - 1)"
    using k1 by (simp add: power_int_def nat_diff_distrib')
  have "rat_of_nat (2 ^ (k - 1)) \<le> rat_of_nat n" using b(1) by (simp only: of_nat_le_iff)
  then have "(2::rat) ^ (k - 1) \<le> rat_of_nat n" by simp
  then have "(2::rat) ^ (k - 1) \<le> x" using nx by (rule order_trans)
  then show "2 powi ilog2 x \<le> x" by (simp only: il p1)
  have "Suc n \<le> 2 ^ k" using b(2) by simp
  then have "rat_of_nat (Suc n) \<le> rat_of_nat (2 ^ k)" by (simp only: of_nat_le_iff)
  then have "rat_of_nat n + 1 \<le> 2 ^ k" by simp
  then show "x < 2 powi (ilog2 x + 1)" using xn by (simp add: il)
qed

lemma ilog2_lt1:
  assumes "0 < x" "x < 1"
  shows "2 powi ilog2 x \<le> x" and "x < 2 powi (ilog2 x + 1)"
proof -
  define c where "c = \<lceil>1 / x\<rceil>"
  define m where "m = nat (c - 1)"
  define k where "k = floorlog 2 m"
  have r1: "1 < 1 / x" using assms by simp
  have c2: "2 \<le> c" unfolding c_def using r1 by linarith
  have m1: "1 \<le> m" unfolding m_def using c2 by linarith
  have b: "2 ^ (k - 1) \<le> m" "m < 2 ^ k"
    using floorlog_bounds [of m 2] m1 by (simp_all add: k_def)
  have k1: "1 \<le> k" using b(2) m1 by (cases k) auto
  have il: "ilog2 x = - int k" using assms by (simp add: ilog2_floorlog k_def m_def c_def)
  have rm: "rat_of_nat m = of_int c - 1" unfolding m_def using c2 by simp
  have up: "1 / x \<le> rat_of_nat m + 1" unfolding rm c_def by simp
  have lo: "rat_of_nat m < 1 / x" unfolding rm c_def by linarith
  have "Suc m \<le> 2 ^ k" using b(2) by simp
  then have "rat_of_nat (Suc m) \<le> rat_of_nat (2 ^ k)" by (simp only: of_nat_le_iff)
  then have "rat_of_nat m + 1 \<le> 2 ^ k" by simp
  then have "1 / x \<le> 2 ^ k" using up by (rule order_trans [rotated])
  then have "1 \<le> 2 ^ k * x" using assms(1) by (simp add: pos_divide_le_eq)
  then have "1 / 2 ^ k \<le> x" by (simp add: pos_divide_le_eq mult.commute)
  then show "2 powi ilog2 x \<le> x" by (simp add: il power_int_minus inverse_eq_divide)
  have "rat_of_nat (2 ^ (k - 1)) \<le> rat_of_nat m" using b(1) by (simp only: of_nat_le_iff)
  then have "(2::rat) ^ (k - 1) \<le> rat_of_nat m" by simp
  then have "2 ^ (k - 1) < 1 / x" using lo by (rule le_less_trans)
  then have "2 ^ (k - 1) * x < 1" using assms(1) by (simp add: pos_less_divide_eq)
  then have "x < 1 / 2 ^ (k - 1)" by (simp add: pos_less_divide_eq mult.commute)
  moreover have "(2::rat) powi (- int k + 1) = 1 / 2 ^ (k - 1)"
  proof -
    have "- int k + 1 = - int (k - 1)" using k1 by simp
    then show ?thesis by (simp add: power_int_minus inverse_eq_divide del: of_nat_diff)
  qed
  ultimately show "x < 2 powi (ilog2 x + 1)" by (simp add: il)
qed

lemma ilog2_bounds:
  assumes "0 < x"
  shows "2 powi ilog2 x \<le> x" and "x < 2 powi (ilog2 x + 1)"
  using assms ilog2_ge1 [of x] ilog2_lt1 [of x] by (cases "1 \<le> x"; simp)+

lemma ilog2_less_iff:
  assumes "0 < x"
  shows "ilog2 x < e \<longleftrightarrow> x < 2 powi e"
proof
  assume "ilog2 x < e"
  then have "ilog2 x + 1 \<le> e" by simp
  then have "(2::rat) powi (ilog2 x + 1) \<le> 2 powi e" by (intro power_int_increasing) simp_all
  then show "x < 2 powi e" using ilog2_bounds(2) [OF assms] by simp
next
  assume a: "x < 2 powi e"
  show "ilog2 x < e"
  proof (rule ccontr)
    assume "\<not> ilog2 x < e"
    then have "e \<le> ilog2 x" by simp
    then have "(2::rat) powi e \<le> 2 powi ilog2 x" by (intro power_int_increasing) simp_all
    then show False using ilog2_bounds(1) [OF assms] a by simp
  qed
qed

lemma ilog2_mono:
  assumes "0 < x" "x \<le> y"
  shows "ilog2 x \<le> ilog2 y"
proof -
  have y: "0 < y" using assms by simp
  have "x < 2 powi (ilog2 y + 1)" using ilog2_bounds(2) [OF y] assms(2) by simp
  then have "ilog2 x < ilog2 y + 1" using ilog2_less_iff [OF assms(1), of "ilog2 y + 1"] by simp
  then show ?thesis by simp
qed

lemma round_even_bounds: "\<lfloor>x\<rfloor> \<le> round_even x" "round_even x \<le> \<lfloor>x\<rfloor> + 1"
  by (simp_all add: round_even_def Let_def)

lemma round_even_of_int [simp]: "round_even (of_int n) = n"
  by (simp add: round_even_def)

lemma round_even_mono:
  assumes "x \<le> y"
  shows "round_even x \<le> round_even y"
proof (cases "\<lfloor>x\<rfloor> = \<lfloor>y\<rfloor>")
  case True
  then show ?thesis using assms by (simp add: round_even_def Let_def)
next
  case False
  then have "\<lfloor>x\<rfloor> < \<lfloor>y\<rfloor>" using floor_mono [OF assms] by simp
  then show ?thesis using round_even_bounds(2) [of x] round_even_bounds(1) [of y] by linarith
qed

lemma round_even_minus: "round_even (- x) = - round_even x"
proof (cases "\<exists>n. x = of_int n")
  case True
  then obtain n where "x = of_int n" by blast
  then have "round_even (- x) = round_even (of_int (- n))" "round_even x = n" by simp_all
  then show ?thesis by (simp del: of_int_minus)
next
  case False
  then have ni: "x \<noteq> of_int n" for n by blast
  have "of_int \<lfloor>x\<rfloor> \<noteq> x" using ni [of "\<lfloor>x\<rfloor>"] by (rule not_sym)
  then have nx: "of_int \<lfloor>x\<rfloor> < x"
    using of_int_floor_le [of x] by (rule order.not_eq_order_implies_strict)
  have fm: "\<lfloor>- x\<rfloor> = - \<lfloor>x\<rfloor> - 1" using ni by (simp add: floor_minus ceiling_altdef)
  show ?thesis unfolding round_even_def Let_def fm using nx by (auto simp: field_simps)
qed



lemma round_to_alt:
  "round_to prec emin x =
     (if x = 0 then 0
      else of_int (round_even (x / 2 powi qexp prec emin x)) * 2 powi qexp prec emin x)"
  by (simp add: round_to_def Let_def)

lemma round_to_0 [simp]: "round_to prec emin 0 = 0"
  by (simp add: round_to_def)

lemma round_to_minus: "round_to prec emin (- x) = - round_to prec emin x"
  by (simp add: round_to_alt qexp_def round_even_minus)

lemma qexp_mono:
  assumes "0 < x" "x \<le> y"
  shows "qexp prec emin x \<le> qexp prec emin y"
  using ilog2_mono [OF assms] assms by (simp add: qexp_def)

lemma pow2_pos [simp]: "0 < (2::rat) powi e"
  by (simp add: power_int_def)

lemma round_to_pos_lower:
  assumes "0 < x"
  shows "0 \<le> round_to prec emin x"
proof -
  have "0 \<le> x / 2 powi qexp prec emin x" using assms by simp
  then have "round_even 0 \<le> round_even (x / 2 powi qexp prec emin x)" by (rule round_even_mono)
  then have "0 \<le> round_even (x / 2 powi qexp prec emin x)" using round_even_of_int [of 0] by simp
  then show ?thesis using assms by (simp add: round_to_alt)
qed

lemma round_to_mono_pos:
  assumes "0 < x" "x \<le> y" and prec: "0 < prec"
  shows "round_to prec emin x \<le> round_to prec emin y"
proof -
  define ex where "ex = qexp prec emin x"
  define ey where "ey = qexp prec emin y"
  have y: "0 < y" using assms by simp
  have le: "ex \<le> ey" unfolding ex_def ey_def using assms(1,2) by (rule qexp_mono)
  have rx: "round_to prec emin x = of_int (round_even (x / 2 powi ex)) * 2 powi ex"
    using assms(1) by (simp add: round_to_alt ex_def)
  have ry: "round_to prec emin y = of_int (round_even (y / 2 powi ey)) * 2 powi ey"
    using y by (simp add: round_to_alt ey_def)
  show ?thesis
  proof (cases "ex = ey")
    case True
    have "x / 2 powi ey \<le> y / 2 powi ey" using assms(2) by (simp add: divide_right_mono)
    then have "round_even (x / 2 powi ey) \<le> round_even (y / 2 powi ey)" by (rule round_even_mono)
    then have "rat_of_int (round_even (x / 2 powi ey)) \<le> of_int (round_even (y / 2 powi ey))"
      by simp
    then show ?thesis unfolding rx ry True by (simp add: mult_right_mono)
  next
    case False
    then have lt: "ex + 1 \<le> ey" using le by simp
    have eyv: "ey = ilog2 y - (int prec - 1)" using lt y
      by (simp add: ey_def ex_def qexp_def)
    have exv: "ilog2 x - (int prec - 1) \<le> ex" using assms(1) by (simp add: ex_def qexp_def)
    \<comment> \<open>the larger value rounds to at least the bottom of its binade\<close>
    have "(2::rat) powi (int prec - 1) * 2 powi ey = 2 powi ilog2 y"
      by (simp add: eyv power_int_add [symmetric])
    also have "\<dots> \<le> y" using ilog2_bounds(1) [OF y] .
    finally have "(2::rat) powi (int prec - 1) \<le> y / 2 powi ey" by (simp add: pos_le_divide_eq)
    moreover have "(2::rat) powi (int prec - 1) = of_int (2 ^ (prec - 1))"
      using prec by (cases prec) (simp_all add: power_int_def)
    ultimately have "round_even (of_int (2 ^ (prec - 1))) \<le> round_even (y / 2 powi ey)"
      by (intro round_even_mono) simp
    then have "rat_of_int (2 ^ (prec - 1)) \<le> of_int (round_even (y / 2 powi ey))"
      by (simp only: round_even_of_int of_int_le_iff)
    then have lowy: "rat_of_int (2 ^ (prec - 1)) * 2 powi ey \<le> round_to prec emin y"
      unfolding ry by (simp add: mult_right_mono)
    \<comment> \<open>the smaller value rounds to at most the top of its binade\<close>
    have "x < 2 powi (ilog2 x + 1)" using ilog2_bounds(2) [OF assms(1)] .
    also have "\<dots> \<le> 2 powi (int prec + ex)" using exv by (intro power_int_increasing) simp_all
    also have "\<dots> = 2 powi int prec * 2 powi ex" by (simp add: power_int_add)
    finally have "x / 2 powi ex \<le> 2 powi int prec" by (simp add: pos_divide_le_eq)
    moreover have "(2::rat) powi int prec = of_int (2 ^ prec)" by (simp add: power_int_def)
    ultimately have "round_even (x / 2 powi ex) \<le> round_even (of_int (2 ^ prec))"
      by (intro round_even_mono) simp
    then have "rat_of_int (round_even (x / 2 powi ex)) \<le> of_int (2 ^ prec)"
      by (simp only: round_even_of_int of_int_le_iff)
    then have "round_to prec emin x \<le> rat_of_int (2 ^ prec) * 2 powi ex"
      unfolding rx by (simp add: mult_right_mono)
    also have "\<dots> = 2 powi (int prec + ex)" by (simp add: power_int_add)
    also have "\<dots> \<le> 2 powi (int prec - 1 + ey)" using lt by (intro power_int_increasing) simp_all
    also have "\<dots> = rat_of_int (2 ^ (prec - 1)) * 2 powi ey"
      using prec by (cases prec) (simp_all add: power_int_add)
    finally show ?thesis using lowy by simp
  qed
qed

lemma round_to_mono:
  assumes "x \<le> y" and prec: "0 < prec"
  shows "round_to prec emin x \<le> round_to prec emin y"
proof -
  consider "0 < x" | "x \<le> 0" "0 \<le> y" | "y < 0" by linarith
  then show ?thesis
  proof cases
    case 1
    then show ?thesis using assms by (rule round_to_mono_pos)
  next
    case 2
    have "round_to prec emin x \<le> 0"
    proof (cases "x = 0")
      case False
      then have "0 < - x" using 2 by simp
      then have "0 \<le> round_to prec emin (- x)" by (rule round_to_pos_lower)
      then show ?thesis by (simp add: round_to_minus)
    qed simp
    moreover have "0 \<le> round_to prec emin y"
    proof (cases "y = 0")
      case False
      then have "0 < y" using 2 by simp
      then show ?thesis by (rule round_to_pos_lower)
    qed simp
    ultimately show ?thesis by simp
  next
    case 3
    then have "0 < - y" "- y \<le> - x" using assms by simp_all
    then have "round_to prec emin (- y) \<le> round_to prec emin (- x)"
      using prec by (rule round_to_mono_pos)
    then show ?thesis by (simp add: round_to_minus)
  qed
qed

lemma round_to_exact:
  assumes "\<bar>m\<bar> < 2 ^ prec" "emin \<le> k"
  shows "round_to prec emin (of_int m * 2 powi k) = of_int m * 2 powi k"
proof (cases "m = 0")
  case True
  then show ?thesis by simp
next
  case False
  define x where "x = rat_of_int m * 2 powi k"
  define e where "e = qexp prec emin x"
  have x0: "x \<noteq> 0" using False by (simp add: x_def)
  have ax: "\<bar>x\<bar> = of_int \<bar>m\<bar> * 2 powi k" by (simp add: x_def abs_mult)
  have "rat_of_int \<bar>m\<bar> < of_int (2 ^ prec)" using assms(1) by (simp only: of_int_less_iff)
  then have "\<bar>x\<bar> < 2 ^ prec * 2 powi k" unfolding ax by (simp add: mult_strict_right_mono)
  also have "\<dots> = 2 powi (int prec + k)" by (simp add: power_int_add)
  finally have "ilog2 \<bar>x\<bar> < int prec + k" using ilog2_less_iff [of "\<bar>x\<bar>"] x0 by simp
  then have ek: "e \<le> k" using assms(2) by (simp add: e_def qexp_def)
  have "x / 2 powi e = of_int m * 2 powi (k - e)"
    by (simp add: x_def power_int_diff)
  also have "\<dots> = of_int (m * 2 ^ nat (k - e))" using ek by (simp add: power_int_def)
  finally have "round_even (x / 2 powi e) = m * 2 ^ nat (k - e)" by (simp only: round_even_of_int)
  then have "round_to prec emin x = of_int (m * 2 ^ nat (k - e)) * 2 powi e"
    using x0 by (simp add: round_to_alt e_def)
  also have "\<dots> = of_int m * (2 powi (k - e) * 2 powi e)" using ek by (simp add: power_int_def)
  also have "\<dots> = x" by (simp add: x_def power_int_add [symmetric])
  finally show ?thesis by (simp add: x_def)
qed

lemma f32_mono: "x \<le> y \<Longrightarrow> f32 x \<le> f32 y"
  by (simp add: f32_def round_to_mono)

lemma f32_exact:
  "\<bar>m\<bar> < 16777216 \<Longrightarrow> - 149 \<le> k \<Longrightarrow> f32 (of_int m * 2 powi k) = of_int m * 2 powi k"
  using round_to_exact [of m 24 "- 149" k] by (simp add: f32_def)

lemma f32_of_int: "\<bar>n\<bar> < 16777216 \<Longrightarrow> f32 (of_int n) = of_int n"
  using f32_exact [of n 0] by simp

lemma f32_half:
  assumes "\<bar>n\<bar> < 8388608"
  shows "f32 (of_int n + 1 / 2) = of_int n + 1 / 2"
proof -
  have e: "rat_of_int (2 * n + 1) * 2 powi (- 1) = of_int n + 1 / 2"
    by (simp add: power_int_minus field_simps)
  have "\<bar>2 * n + 1\<bar> < 16777216" using assms by linarith
  then have "f32 (rat_of_int (2 * n + 1) * 2 powi (- 1)) = rat_of_int (2 * n + 1) * 2 powi (- 1)"
    by (rule f32_exact) simp
  then show ?thesis unfolding e .
qed

lemma f32_sixteenths:
  assumes "0 \<le> n" "n < 1000000"
  shows "f32 (of_int n + 15 / 16) = of_int n + 15 / 16"
proof -
  have e: "rat_of_int (16 * n + 15) * 2 powi (- 4) = of_int n + 15 / 16"
    by (simp add: power_int_minus field_simps)
  have "\<bar>16 * n + 15\<bar> < 16777216" using assms by linarith
  then have "f32 (rat_of_int (16 * n + 15) * 2 powi (- 4)) = rat_of_int (16 * n + 15) * 2 powi (- 4)"
    by (rule f32_exact) simp
  then show ?thesis unfolding e .
qed

lemma f32_0 [simp]: "f32 0 = 0"
  by (simp add: f32_def)

lemma f32_1 [simp]: "f32 1 = 1"
  using f32_of_int [of 1] by simp

lemma f32_nonneg: "0 \<le> x \<Longrightarrow> 0 \<le> f32 x"
  using f32_mono [of 0 x] by simp

lemma float_to_int_mono:
  assumes "x \<le> y"
  shows "float_to_int x \<le> float_to_int y"
proof (cases "0 \<le> x")
  case True
  then show ?thesis using assms by (simp add: float_to_int_def floor_mono)
next
  case False
  show ?thesis
  proof (cases "0 \<le> y")
    case True
    have "\<lceil>x\<rceil> \<le> 0" using False by (simp add: ceiling_le_iff)
    moreover have "0 \<le> \<lfloor>y\<rfloor>" using True by simp
    ultimately have "\<lceil>x\<rceil> \<le> \<lfloor>y\<rfloor>" by (rule order_trans)
    then show ?thesis using False True by (simp add: float_to_int_def)
  next
    case y: False
    then show ?thesis using False ceiling_mono [OF assms] by (simp add: float_to_int_def)
  qed
qed

lemma float_to_int_of_int [simp]: "float_to_int (of_int n) = n"
  by (simp add: float_to_int_def)

lemma float_to_int_half: "0 \<le> n \<Longrightarrow> float_to_int (of_int n + 1 / 2) = n"
  by (simp add: float_to_int_def) linarith

lemma ON_FRACTION_value: "ON_FRACTION = 5033165 / 16777216"
  by code_simp

lemma ON_FRACTION_2_eq: "ON_FRACTION_2 = ON_FRACTION"
  by code_simp

lemma computePattern_unfold:
  "computePatternFromDistance cfg s r =
     (let period = (if r then period_of (MAX_PERIOD_MS cfg) (MIN_PERIOD_MS cfg)
                               (ease_of (FAR_DISTANCE_MM cfg) (NEAR_DISTANCE_MM cfg) s)
                    else MAX_PERIOD_MS cfg);
          tone = (if r then tone_of (TONE_MIN_HZ cfg) (TONE_MAX_HZ cfg)
                               (ease_of (FAR_DISTANCE_MM cfg) (NEAR_DISTANCE_MM cfg) s)
                  else TONE_MIN_HZ cfg)
      in \<lparr>periodMs = period, toneHz = tone,
          onMs = fst (onOffSplit ON_FRACTION period),
          offMs = snd (onOffSplit ON_FRACTION period)\<rparr>)"
  by (simp add: computePatternFromDistance_def ease_of_def period_of_def tone_of_def Let_def
        split: prod.split)

lemma cadence_2_unfold:
  "cadence_2 s r =
     (if r then (period_of 1600 110 (ease_of 1500 150 s), tone_of 400 1600 (ease_of 1500 150 s))
      else (1600, 400))"
  by (simp add: cadence_2_def ease_of_def period_of_def tone_of_def Let_def FAR_MM_def NEAR_MM_def
        MAX_PERIOD_MS_2_def MIN_PERIOD_MS_2_def TONE_MIN_HZ_2_def TONE_MAX_HZ_2_def)

lemma cadence_2_eq:
  "cadence_2 s r = (periodMs (computePatternFromDistance tunables_2 s r),
                    toneHz (computePatternFromDistance tunables_2 s r))"
  by (simp add: cadence_2_unfold computePattern_unfold tunables_2_def Let_def)

lemma ease_alt:
  "ease_of far near s =
     (let n = min 1 (max 0 (fdiv (int_to_float (far - s)) (int_to_float (far - near))))
      in fmul (fmul n n) n)"
  by (simp add: ease_of_def Let_def min_def max_def)

lemma int_to_float_mono: "m \<le> n \<Longrightarrow> int_to_float m \<le> int_to_float n"
  by (simp add: int_to_float_def f32_mono)

lemma int_to_float_0 [simp]: "int_to_float 0 = 0"
  by (simp add: int_to_float_def)

lemma int_to_float_exact: "\<bar>n\<bar> < 16777216 \<Longrightarrow> int_to_float n = of_int n"
  by (simp add: int_to_float_def f32_of_int)

lemma int_to_float_pos: 
  assumes "0 < n" shows "1 \<le> int_to_float n"
proof -
  have "int_to_float 1 \<le> int_to_float n" using assms by (intro int_to_float_mono) simp
  then show ?thesis by (simp add: int_to_float_def)
qed

lemma fmul_unit_interval:
  assumes "0 \<le> a" "a \<le> 1" "0 \<le> b" "b \<le> 1"
  shows "0 \<le> fmul a b" and "fmul a b \<le> 1"
proof -
  have "0 \<le> a * b" using assms by simp
  then show "0 \<le> fmul a b" unfolding fmul_def by (rule f32_nonneg)
  have "a * b \<le> 1" using assms by (simp add: mult_le_one)
  then have "f32 (a * b) \<le> f32 1" by (rule f32_mono)
  then show "fmul a b \<le> 1" by (simp add: fmul_def)
qed

lemma fmul_mono_nonneg:
  assumes "0 \<le> a" "a \<le> a'" "0 \<le> b" "b \<le> b'"
  shows "fmul a b \<le> fmul a' b'"
  unfolding fmul_def using assms by (intro f32_mono mult_mono) simp_all

lemma ease_range:
  assumes "near < far"
  shows "0 \<le> ease_of far near s" and "ease_of far near s \<le> 1"
proof -
  define n where "n = min 1 (max 0 (fdiv (int_to_float (far - s)) (int_to_float (far - near))))"
  have n: "0 \<le> n" "n \<le> 1" by (simp_all add: n_def)
  have e: "ease_of far near s = fmul (fmul n n) n" by (simp add: ease_alt n_def Let_def)
  have m: "0 \<le> fmul n n" "fmul n n \<le> 1" using fmul_unit_interval [OF n n] by simp_all
  show "0 \<le> ease_of far near s" "ease_of far near s \<le> 1"
    unfolding e using fmul_unit_interval [OF m n] by simp_all
qed

lemma ease_mono:
  assumes "near < far" "d2 \<le> d1"
  shows "ease_of far near d1 \<le> ease_of far near d2"
proof -
  define den where "den = int_to_float (far - near)"
  define n1 where "n1 = min 1 (max 0 (fdiv (int_to_float (far - d1)) den))"
  define n2 where "n2 = min 1 (max 0 (fdiv (int_to_float (far - d2)) den))"
  have den: "0 < den" using int_to_float_pos [of "far - near"] assms(1) by (simp add: den_def)
  have "int_to_float (far - d1) \<le> int_to_float (far - d2)"
    using assms(2) by (intro int_to_float_mono) simp
  then have "int_to_float (far - d1) / den \<le> int_to_float (far - d2) / den"
    using den by (simp add: divide_right_mono)
  then have "fdiv (int_to_float (far - d1)) den \<le> fdiv (int_to_float (far - d2)) den"
    unfolding fdiv_def by (rule f32_mono)
  then have le: "n1 \<le> n2" unfolding n1_def n2_def by (auto simp: min_def max_def)
  have n1: "0 \<le> n1" by (simp add: n1_def)
  have sq: "fmul n1 n1 \<le> fmul n2 n2" using n1 le by (intro fmul_mono_nonneg)
  have "0 \<le> fmul n1 n1" unfolding fmul_def using n1 by (intro f32_nonneg) simp
  then have "fmul (fmul n1 n1) n1 \<le> fmul (fmul n2 n2) n2" using sq n1 le by (intro fmul_mono_nonneg)
  then show ?thesis by (simp add: ease_alt n1_def n2_def den_def Let_def)
qed

lemma ease_far:
  "ease_of far near far = 0"
  by (simp add: ease_alt fdiv_def fmul_def)

lemma ease_near:
  assumes "near < far" "s \<le> near"
  shows "ease_of far near s = 1"
proof -
  define den where "den = int_to_float (far - near)"
  have den: "0 < den" using int_to_float_pos [of "far - near"] assms(1) by (simp add: den_def)
  have "den \<le> int_to_float (far - s)" unfolding den_def using assms(2) by (intro int_to_float_mono) simp
  then have "1 \<le> int_to_float (far - s) / den" using den by (simp add: pos_le_divide_eq)
  then have "f32 1 \<le> f32 (int_to_float (far - s) / den)" by (rule f32_mono)
  then have "1 \<le> fdiv (int_to_float (far - s)) den" by (simp add: fdiv_def)
  then have "min 1 (max 0 (fdiv (int_to_float (far - s)) den)) = 1" by simp
  then show ?thesis by (simp add: ease_alt den_def fmul_def)
qed

lemma period_of_anti:
  assumes "lo \<le> hi" "0 \<le> e1" "e1 \<le> e2"
  shows "period_of hi lo e2 \<le> period_of hi lo e1"
proof -
  define d where "d = int_to_float (hi - lo)"
  have d: "0 \<le> d" using int_to_float_mono [of 0 "hi - lo"] assms(1) by (simp add: d_def)
  have "fmul e1 d \<le> fmul e2 d" using assms(2,3) d by (intro fmul_mono_nonneg) simp_all
  then have "int_to_float hi - fmul e2 d \<le> int_to_float hi - fmul e1 d" by simp
  then have "fsub (int_to_float hi) (fmul e2 d) \<le> fsub (int_to_float hi) (fmul e1 d)"
    unfolding fsub_def by (rule f32_mono)
  then have "fsub (int_to_float hi) (fmul e2 d) + 1 / 2 \<le> fsub (int_to_float hi) (fmul e1 d) + 1 / 2"
    by simp
  then have "fadd (fsub (int_to_float hi) (fmul e2 d)) (1 / 2)
             \<le> fadd (fsub (int_to_float hi) (fmul e1 d)) (1 / 2)"
    unfolding fadd_def by (rule f32_mono)
  then show ?thesis unfolding period_of_def d_def by (rule float_to_int_mono)
qed

lemma tone_of_mono:
  assumes "lo \<le> hi" "0 \<le> e1" "e1 \<le> e2"
  shows "tone_of lo hi e1 \<le> tone_of lo hi e2"
proof -
  define d where "d = int_to_float (hi - lo)"
  have d: "0 \<le> d" using int_to_float_mono [of 0 "hi - lo"] assms(1) by (simp add: d_def)
  have "fmul e1 d \<le> fmul e2 d" using assms(2,3) d by (intro fmul_mono_nonneg) simp_all
  then have "int_to_float lo + fmul e1 d \<le> int_to_float lo + fmul e2 d" by simp
  then have "fadd (int_to_float lo) (fmul e1 d) \<le> fadd (int_to_float lo) (fmul e2 d)"
    unfolding fadd_def by (rule f32_mono)
  then have "fadd (int_to_float lo) (fmul e1 d) + 1 / 2 \<le> fadd (int_to_float lo) (fmul e2 d) + 1 / 2"
    by simp
  then have "fadd (fadd (int_to_float lo) (fmul e1 d)) (1 / 2)
             \<le> fadd (fadd (int_to_float lo) (fmul e2 d)) (1 / 2)"
    unfolding fadd_def by (rule f32_mono)
  then show ?thesis unfolding tone_of_def d_def by (rule float_to_int_mono)
qed

lemma round_half_up_int:
  assumes "0 \<le> n" "n \<le> 32767"
  shows "float_to_int (fadd (of_int n) (1 / 2)) = n"
proof -
  have "f32 (of_int n + 1 / 2) = of_int n + 1 / 2" using assms by (intro f32_half) simp
  then show ?thesis using assms(1) by (simp add: fadd_def float_to_int_half)
qed

lemma period_of_0:
  assumes "0 \<le> hi" "hi \<le> 32767"
  shows "period_of hi lo 0 = hi"
proof -
  have h: "int_to_float hi = of_int hi" using assms by (intro int_to_float_exact) simp
  have "fsub (int_to_float hi) (fmul 0 (int_to_float (hi - lo))) = of_int hi"
    using assms by (simp add: fsub_def fmul_def h f32_of_int)
  then show ?thesis using round_half_up_int [OF assms] by (simp add: period_of_def)
qed

lemma period_of_1:
  assumes "0 \<le> lo" "lo \<le> hi" "hi \<le> 32767"
  shows "period_of hi lo 1 = lo"
proof -
  have h: "int_to_float hi = of_int hi" using assms by (intro int_to_float_exact) simp
  have d: "int_to_float (hi - lo) = of_int (hi - lo)" using assms by (intro int_to_float_exact) simp
  have m: "fmul 1 (of_int (hi - lo)) = of_int (hi - lo)"
    using assms by (simp add: fmul_def f32_of_int del: of_int_diff)
  have e: "rat_of_int hi - of_int (hi - lo) = of_int lo" by simp
  have "f32 (rat_of_int lo) = of_int lo" using assms by (intro f32_of_int) simp
  then have "fsub (of_int hi) (of_int (hi - lo)) = of_int lo"
    unfolding fsub_def e .
  then have "fsub (int_to_float hi) (fmul 1 (int_to_float (hi - lo))) = of_int lo"
    by (simp only: h d m)
  moreover have "lo \<le> 32767" using assms by simp
  ultimately show ?thesis using round_half_up_int [of lo] assms(1) by (simp add: period_of_def)
qed

lemma tone_of_0:
  assumes "0 \<le> lo" "lo \<le> 32767"
  shows "tone_of lo hi 0 = lo"
proof -
  have h: "int_to_float lo = of_int lo" using assms by (intro int_to_float_exact) simp
  have "fadd (int_to_float lo) (fmul 0 (int_to_float (hi - lo))) = of_int lo"
    using assms by (simp add: fadd_def fmul_def h f32_of_int)
  then show ?thesis using round_half_up_int [OF assms] by (simp add: tone_of_def)
qed

lemma tone_of_1:
  assumes "0 \<le> lo" "lo \<le> hi" "hi \<le> 32767"
  shows "tone_of lo hi 1 = hi"
proof -
  have l: "int_to_float lo = of_int lo" using assms by (intro int_to_float_exact) simp
  have d: "int_to_float (hi - lo) = of_int (hi - lo)" using assms by (intro int_to_float_exact) simp
  have m: "fmul 1 (of_int (hi - lo)) = of_int (hi - lo)"
    using assms by (simp add: fmul_def f32_of_int del: of_int_diff)
  have e: "rat_of_int lo + of_int (hi - lo) = of_int hi" by simp
  have "f32 (rat_of_int hi) = of_int hi" using assms by (intro f32_of_int) simp
  then have "fadd (of_int lo) (of_int (hi - lo)) = of_int hi"
    unfolding fadd_def e .
  then have "fadd (int_to_float lo) (fmul 1 (int_to_float (hi - lo))) = of_int hi"
    by (simp only: l d m)
  moreover have "0 \<le> hi" using assms by simp
  ultimately show ?thesis using round_half_up_int [of hi] assms(3) by (simp add: tone_of_def)
qed

lemma period_of_bounds:
  assumes "0 \<le> lo" "lo \<le> hi" "hi \<le> 32767" "0 \<le> e" "e \<le> 1"
  shows "lo \<le> period_of hi lo e" and "period_of hi lo e \<le> hi"
proof -
  have "period_of hi lo 1 \<le> period_of hi lo e" using assms by (intro period_of_anti) simp_all
  then show "lo \<le> period_of hi lo e" using period_of_1 [of lo hi] assms by simp
  have "period_of hi lo e \<le> period_of hi lo 0" using assms by (intro period_of_anti) simp_all
  then show "period_of hi lo e \<le> hi" using period_of_0 [of hi lo] assms by simp
qed

lemma onOffSplit_floor:
  assumes "0 \<le> period" "period \<le> 32767"
  shows "onOffSplit ON_FRACTION period =
           (word_of_int (3 * period div 10), word_of_int (period - 3 * period div 10))"
proof -
  define k where "k = 3 * period div 10"
  define x where "x = rat_of_int period * ON_FRACTION"
  have k0: "0 \<le> k" using assms by (simp add: k_def)
  have k1: "k \<le> 9831" using assms by (simp add: k_def)
  have pf: "int_to_float period = of_int period" using assms by (intro int_to_float_exact) simp
  have i1: "10 * k \<le> 3 * period" and i2: "3 * period \<le> 10 * k + 9"
    unfolding k_def by linarith+
  have "rat_of_int (10 * k) \<le> of_int (3 * period)" using i1 by (simp only: of_int_le_iff)
  then have kk1: "10 * rat_of_int k \<le> 3 * of_int period" by simp
  have "rat_of_int (3 * period) \<le> of_int (10 * k + 9)" using i2 by (simp only: of_int_le_iff)
  then have kk2: "3 * rat_of_int period \<le> 10 * of_int k + 9" by simp
  note kk = kk1 kk2
  have p: "0 \<le> rat_of_int period" "rat_of_int period \<le> 32767" using assms by simp_all
  have lo: "of_int k \<le> x" unfolding x_def ON_FRACTION_value using kk p by linarith
  have hi: "x \<le> of_int k + 15 / 16" unfolding x_def ON_FRACTION_value using kk p by linarith
  have "f32 (of_int k) \<le> f32 x" using lo by (rule f32_mono)
  then have l2: "of_int k \<le> f32 x" using k0 k1 by (simp add: f32_of_int)
  have "f32 x \<le> f32 (of_int k + 15 / 16)" using hi by (rule f32_mono)
  then have h2: "f32 x \<le> of_int k + 15 / 16" using k0 k1 by (simp add: f32_sixteenths)
  have "(0::rat) \<le> of_int k" using k0 by simp
  then have "0 \<le> f32 x" using l2 by (rule order_trans)
  moreover have "\<lfloor>f32 x\<rfloor> = k" using l2 h2 by (intro floor_unique) simp_all
  ultimately have "float_to_int (f32 x) = k" by (simp add: float_to_int_def)
  then have "float_to_ulong (fmul (int_to_float period) ON_FRACTION) = word_of_int k"
    by (simp add: float_to_ulong_def fmul_def pf x_def)
  then show ?thesis by (simp add: onOffSplit_def Let_def k_def)
qed

subsection \<open>The smoother\<close>

text \<open>
  What the sampler returns is a sample, so the buffer only ever holds samples.
\<close>

lemma readDistanceMmOnce_is_sample: "is_sample (fst (readDistanceMmOnce us))"
proof -
  have h0: "f32 (1 / 2) = 1 / 2" using f32_half [of 0] by simp
  have h6: "f32 (12001 / 2) = 12001 / 2" using f32_half [of 6000] by simp
  have f0: "float_to_int (1 / 2) = 0" by code_simp
  have f6: "float_to_int (12001 / 2) = 6000" by code_simp
  have "is_sample (float_to_int (fadd mm (1 / 2)))" if "0 \<le> mm" "mm \<le> 6000" for mm
  proof -
    have "f32 (1 / 2) \<le> f32 (mm + 1 / 2)" using that by (intro f32_mono) simp
    then have "float_to_int (1 / 2) \<le> float_to_int (fadd mm (1 / 2))"
      unfolding h0 fadd_def by (rule float_to_int_mono)
    then have lo: "0 \<le> float_to_int (fadd mm (1 / 2))" by (simp only: f0)
    have "f32 (mm + 1 / 2) \<le> f32 (12001 / 2)" using that by (intro f32_mono) simp
    then have "float_to_int (fadd mm (1 / 2)) \<le> float_to_int (12001 / 2)"
      unfolding h6 fadd_def by (rule float_to_int_mono)
    then have "float_to_int (fadd mm (1 / 2)) \<le> 6000" by (simp only: f6)
    then show ?thesis using lo by (simp add: is_sample_def)
  qed
  then show ?thesis by (auto simp: readDistanceMmOnce_def Let_def is_sample_def not_less)
qed

lemma loop_keeps_samples:
  assumes "list_all is_sample (distanceBuf st)"
  shows "list_all is_sample (distanceBuf (fst (loop cfg st us now)))"
proof -
  obtain mm io where r: "readDistanceMmOnce us = (mm, io)" by (cases "readDistanceMmOnce us")
  have "is_sample mm" using readDistanceMmOnce_is_sample [of us] by (simp add: r)
  then have "list_all is_sample ((distanceBuf st)[unat (distanceIdx st) := mm])"
    using assms by (auto simp: list_all_iff dest!: set_update_subset_insert [THEN subsetD])
  then show ?thesis
    by (simp add: loop_def readAndSmoothDistanceMm_def r Let_def split: prod.split)
qed

text \<open>
  C1. On a buffer of samples the smoother returns the invalid marker \<open>-1\<close> when no entry
  is valid (at least 0), the entry itself when exactly one is valid, the mean of the two
  valid entries with truncating division when exactly two are, and the median of the
  three entries (the middle element of the sorted buffer) when all three are valid. Both
  variants of the function do so.
\<close>

theorem smoothing_rule:
  assumes "is_sample a" and "is_sample b" and "is_sample c"
  shows "case filter (\<lambda>x. 0 \<le> x) [a, b, c] of
           [] \<Rightarrow> medianOf3_allowInvalid a b c = -1 \<and> median3 a b c = -1
         | [x] \<Rightarrow> medianOf3_allowInvalid a b c = x \<and> median3 a b c = x
         | [x, y] \<Rightarrow> medianOf3_allowInvalid a b c = (x + y) sdiv 2
                     \<and> median3 a b c = (x + y) sdiv 2
         | _ \<Rightarrow> medianOf3_allowInvalid a b c = sort [a, b, c] ! 1
                 \<and> median3 a b c = sort [a, b, c] ! 1"
  by (auto simp: medianOf3_allowInvalid_def median3_def swap_if_greater_def Let_def
        upt_rec numeral_3_eq_3)

theorem smoothing_rule_witness:
  "is_sample 800 \<and> is_sample (-1) \<and> is_sample 820
   \<and> medianOf3_allowInvalid 800 (-1) 820 = 810 \<and> median3 800 (-1) 820 = 810"
  using smoothing_rule [of 800 "-1" 820] by (simp add: is_sample_def)

subsection \<open>The cadence\<close>

lemma tunables_2_ok: "tunables_ok tunables_2"
  by (simp add: tunables_ok_def tunables_2_def)

lemma computed_period_range:
  assumes "tunables_ok cfg"
  shows "MIN_PERIOD_MS cfg \<le> periodMs (computePatternFromDistance cfg s r)"
    and "periodMs (computePatternFromDistance cfg s r) \<le> MAX_PERIOD_MS cfg"
proof -
  define e where "e = ease_of (FAR_DISTANCE_MM cfg) (NEAR_DISTANCE_MM cfg) s"
  have nf: "NEAR_DISTANCE_MM cfg < FAR_DISTANCE_MM cfg" using assms by (simp add: tunables_ok_def)
  have e: "0 \<le> e" "e \<le> 1" unfolding e_def using ease_range [OF nf] by simp_all
  have c: "0 \<le> MIN_PERIOD_MS cfg" "MIN_PERIOD_MS cfg \<le> MAX_PERIOD_MS cfg"
    "MAX_PERIOD_MS cfg \<le> 32767" using assms by (simp_all add: tunables_ok_def)
  have b: "MIN_PERIOD_MS cfg \<le> period_of (MAX_PERIOD_MS cfg) (MIN_PERIOD_MS cfg) e"
    "period_of (MAX_PERIOD_MS cfg) (MIN_PERIOD_MS cfg) e \<le> MAX_PERIOD_MS cfg"
    using period_of_bounds [OF c e] by simp_all
  show "MIN_PERIOD_MS cfg \<le> periodMs (computePatternFromDistance cfg s r)"
    using b(1) c(2) by (simp add: computePattern_unfold Let_def e_def)
  show "periodMs (computePatternFromDistance cfg s r) \<le> MAX_PERIOD_MS cfg"
    using b(2) by (simp add: computePattern_unfold Let_def e_def)
qed

lemma computed_split:
  "onMs (computePatternFromDistance cfg s r)
     = fst (onOffSplit ON_FRACTION (periodMs (computePatternFromDistance cfg s r)))"
  "offMs (computePatternFromDistance cfg s r)
     = snd (onOffSplit ON_FRACTION (periodMs (computePatternFromDistance cfg s r)))"
  by (simp_all add: computePattern_unfold Let_def)

lemma uint_small: "0 \<le> k \<Longrightarrow> k \<le> 32767 \<Longrightarrow> uint (word_of_int k :: ulong) = k"
  by (simp add: uint_word_of_int take_bit_int_eq_self)

lemma split_values:
  assumes "0 \<le> period" "period \<le> 32767"
  shows "uint (fst (onOffSplit ON_FRACTION period)) = 3 * period div 10"
    and "uint (snd (onOffSplit ON_FRACTION period)) = period - 3 * period div 10"
proof -
  have "0 \<le> 3 * period div 10" "3 * period div 10 \<le> 32767" using assms by simp_all
  then show "uint (fst (onOffSplit ON_FRACTION period)) = 3 * period div 10"
    using assms by (simp add: onOffSplit_floor uint_small)
  have r: "0 \<le> period - 3 * period div 10" "period - 3 * period div 10 \<le> 32767"
    using assms by linarith+
  have "snd (onOffSplit ON_FRACTION period) = word_of_int (period - 3 * period div 10)"
    by (simp only: onOffSplit_floor [OF assms] snd_conv)
  then show "uint (snd (onOffSplit ON_FRACTION period)) = period - 3 * period div 10"
    by (simp only: uint_small [OF r])
qed

lemma cadence_2_range: "110 \<le> fst (cadence_2 s r)" "fst (cadence_2 s r) \<le> 1600"
  using computed_period_range [OF tunables_2_ok, of s r]
  by (simp_all add: cadence_2_eq) (simp_all add: tunables_2_def)

text \<open>
  C4. With \<open>in_range\<close> true and sensible tunables, a smoothed distance equal to the far
  boundary gives the slowest period and the lowest tone (the eased proximity is 0), and
  a smoothed distance at or inside the near boundary gives exactly the fastest period
  and the highest tone (the eased proximity is 1): at both ends the interpolated value
  is the integer constant itself, which \<open>(int)(x + 0.5f)\<close> returns unchanged. Both
  variants do so, the second with its own constants.
\<close>

theorem cadence_endpoints:
  "(\<forall>cfg s. tunables_ok cfg \<longrightarrow>
      periodMs (computePatternFromDistance cfg (FAR_DISTANCE_MM cfg) True) = MAX_PERIOD_MS cfg
      \<and> toneHz (computePatternFromDistance cfg (FAR_DISTANCE_MM cfg) True) = TONE_MIN_HZ cfg
      \<and> (s \<le> NEAR_DISTANCE_MM cfg \<longrightarrow>
           periodMs (computePatternFromDistance cfg s True) = MIN_PERIOD_MS cfg
           \<and> toneHz (computePatternFromDistance cfg s True) = TONE_MAX_HZ cfg))
   \<and> cadence_2 FAR_MM True = (MAX_PERIOD_MS_2, TONE_MIN_HZ_2)
   \<and> (\<forall>s. s \<le> NEAR_MM \<longrightarrow> cadence_2 s True = (MIN_PERIOD_MS_2, TONE_MAX_HZ_2))"
proof -
  have one: "periodMs (computePatternFromDistance cfg (FAR_DISTANCE_MM cfg) True) = MAX_PERIOD_MS cfg
      \<and> toneHz (computePatternFromDistance cfg (FAR_DISTANCE_MM cfg) True) = TONE_MIN_HZ cfg
      \<and> (s \<le> NEAR_DISTANCE_MM cfg \<longrightarrow>
           periodMs (computePatternFromDistance cfg s True) = MIN_PERIOD_MS cfg
           \<and> toneHz (computePatternFromDistance cfg s True) = TONE_MAX_HZ cfg)"
    if ok: "tunables_ok cfg" for cfg s
  proof -
    have c: "NEAR_DISTANCE_MM cfg < FAR_DISTANCE_MM cfg"
      "0 \<le> MIN_PERIOD_MS cfg" "MIN_PERIOD_MS cfg \<le> MAX_PERIOD_MS cfg" "MAX_PERIOD_MS cfg \<le> 32767"
      "0 \<le> TONE_MIN_HZ cfg" "TONE_MIN_HZ cfg \<le> TONE_MAX_HZ cfg" "TONE_MAX_HZ cfg \<le> 32767"
      using ok by (simp_all add: tunables_ok_def)
    have "0 \<le> MAX_PERIOD_MS cfg" "TONE_MIN_HZ cfg \<le> 32767" using c by simp_all
    then have far: "period_of (MAX_PERIOD_MS cfg) (MIN_PERIOD_MS cfg) 0 = MAX_PERIOD_MS cfg"
      "tone_of (TONE_MIN_HZ cfg) (TONE_MAX_HZ cfg) 0 = TONE_MIN_HZ cfg"
      using c by (simp_all add: period_of_0 tone_of_0)
    have near: "period_of (MAX_PERIOD_MS cfg) (MIN_PERIOD_MS cfg) 1 = MIN_PERIOD_MS cfg"
      "tone_of (TONE_MIN_HZ cfg) (TONE_MAX_HZ cfg) 1 = TONE_MAX_HZ cfg"
      using c by (simp_all add: period_of_1 tone_of_1)
    show ?thesis
      using far near ease_near [OF c(1), of s]
      by (simp add: computePattern_unfold Let_def ease_far)
  qed
  have two: "cadence_2 FAR_MM True = (MAX_PERIOD_MS_2, TONE_MIN_HZ_2)"
    using one [OF tunables_2_ok]
    by (simp add: cadence_2_eq) (simp add: tunables_2_def FAR_MM_def MAX_PERIOD_MS_2_def TONE_MIN_HZ_2_def)
  have three: "cadence_2 s True = (MIN_PERIOD_MS_2, TONE_MAX_HZ_2)" if "s \<le> NEAR_MM" for s
    using one [OF tunables_2_ok, of s] that
    by (simp add: cadence_2_eq) (simp add: tunables_2_def NEAR_MM_def MIN_PERIOD_MS_2_def TONE_MAX_HZ_2_def)
  show ?thesis using one two three by blast
qed

theorem cadence_endpoints_witness:
  "tunables_ok tunables_2 \<and> (150::int) \<le> NEAR_DISTANCE_MM tunables_2 \<and> (90::int) \<le> NEAR_MM
   \<and> computePatternFromDistance tunables_2 1500 True
       = \<lparr>periodMs = 1600, toneHz = 400, onMs = 480, offMs = 1120\<rparr>
   \<and> periodMs (computePatternFromDistance tunables_2 150 True) = 110
   \<and> toneHz (computePatternFromDistance tunables_2 150 True) = 1600
   \<and> cadence_2 1500 True = (1600, 400) \<and> cadence_2 90 True = (110, 1600)"
proof -
  have ok: "tunables_ok tunables_2" by (simp add: tunables_ok_def tunables_2_def)
  have a: "(150::int) \<le> NEAR_DISTANCE_MM tunables_2" by (simp add: tunables_2_def)
  have b: "(90::int) \<le> NEAR_MM" by (simp add: NEAR_MM_def)
  note t = cadence_endpoints
  have v1: "periodMs (computePatternFromDistance tunables_2 150 True) = 110
     \<and> toneHz (computePatternFromDistance tunables_2 150 True) = 1600"
    using t [THEN conjunct1, rule_format, OF ok, of 150] a by (simp add: tunables_2_def)
  have v2: "cadence_2 1500 True = (1600, 400) \<and> cadence_2 90 True = (110, 1600)"
    using t [THEN conjunct2, THEN conjunct1] t [THEN conjunct2, THEN conjunct2, rule_format, OF b]
    by (simp add: FAR_MM_def MAX_PERIOD_MS_2_def MIN_PERIOD_MS_2_def TONE_MIN_HZ_2_def TONE_MAX_HZ_2_def)
  have v3: "computePatternFromDistance tunables_2 1500 True
       = \<lparr>periodMs = 1600, toneHz = 400, onMs = 480, offMs = 1120\<rparr>"
    by code_simp
  show ?thesis using ok a b v1 v2 v3 by blast
qed

text \<open>
  C5. With sensible tunables, of two smoothed distances between the near and the far
  boundary the smaller one never has the longer period nor the lower tone. Every
  rounding step of the computation is monotone, so the property survives single
  precision. Both variants.
\<close>

theorem cadence_monotone:
  "(\<forall>cfg d1 d2. tunables_ok cfg \<and> NEAR_DISTANCE_MM cfg \<le> d2 \<and> d2 < d1 \<and> d1 \<le> FAR_DISTANCE_MM cfg \<longrightarrow>
      periodMs (computePatternFromDistance cfg d2 True)
        \<le> periodMs (computePatternFromDistance cfg d1 True)
      \<and> toneHz (computePatternFromDistance cfg d1 True)
        \<le> toneHz (computePatternFromDistance cfg d2 True))
   \<and> (\<forall>d1 d2. NEAR_MM \<le> d2 \<and> d2 < d1 \<and> d1 \<le> FAR_MM \<longrightarrow>
      fst (cadence_2 d2 True) \<le> fst (cadence_2 d1 True)
      \<and> snd (cadence_2 d1 True) \<le> snd (cadence_2 d2 True))"
proof -
  have one: "periodMs (computePatternFromDistance cfg d2 True)
        \<le> periodMs (computePatternFromDistance cfg d1 True)
      \<and> toneHz (computePatternFromDistance cfg d1 True)
        \<le> toneHz (computePatternFromDistance cfg d2 True)"
    if ok: "tunables_ok cfg" and d: "d2 \<le> d1" for cfg d1 d2
  proof -
    have c: "NEAR_DISTANCE_MM cfg < FAR_DISTANCE_MM cfg"
      "MIN_PERIOD_MS cfg \<le> MAX_PERIOD_MS cfg" "TONE_MIN_HZ cfg \<le> TONE_MAX_HZ cfg"
      using ok by (simp_all add: tunables_ok_def)
    define e1 where "e1 = ease_of (FAR_DISTANCE_MM cfg) (NEAR_DISTANCE_MM cfg) d1"
    define e2 where "e2 = ease_of (FAR_DISTANCE_MM cfg) (NEAR_DISTANCE_MM cfg) d2"
    have e: "0 \<le> e1" "e1 \<le> e2"
      unfolding e1_def e2_def using ease_range(1) [OF c(1)] ease_mono [OF c(1) d] by simp_all
    show ?thesis
      using period_of_anti [OF c(2) e] tone_of_mono [OF c(3) e]
      by (simp add: computePattern_unfold Let_def e1_def e2_def)
  qed
  have two: "fst (cadence_2 d2 True) \<le> fst (cadence_2 d1 True)
      \<and> snd (cadence_2 d1 True) \<le> snd (cadence_2 d2 True)" if "d2 \<le> d1" for d1 d2
    using one [OF tunables_2_ok that] by (simp add: cadence_2_eq)
  show ?thesis using one two by (meson less_imp_le)
qed

theorem cadence_monotone_witness:
  "tunables_ok tunables_2 \<and> NEAR_DISTANCE_MM tunables_2 \<le> 800 \<and> (800::int) < 1000
   \<and> 1000 \<le> FAR_DISTANCE_MM tunables_2 \<and> NEAR_MM \<le> 800 \<and> 1000 \<le> FAR_MM
   \<and> periodMs (computePatternFromDistance tunables_2 800 True)
        \<le> periodMs (computePatternFromDistance tunables_2 1000 True)
   \<and> toneHz (computePatternFromDistance tunables_2 1000 True)
        \<le> toneHz (computePatternFromDistance tunables_2 800 True)
   \<and> fst (cadence_2 800 True) \<le> fst (cadence_2 1000 True)
   \<and> snd (cadence_2 1000 True) \<le> snd (cadence_2 800 True)"
proof -
  have h1: "tunables_ok tunables_2 \<and> NEAR_DISTANCE_MM tunables_2 \<le> 800 \<and> (800::int) < 1000
     \<and> 1000 \<le> FAR_DISTANCE_MM tunables_2"
    by (simp add: tunables_ok_def tunables_2_def)
  have h2: "NEAR_MM \<le> 800 \<and> (800::int) < 1000 \<and> 1000 \<le> FAR_MM"
    by (simp add: NEAR_MM_def FAR_MM_def)
  note t = cadence_monotone
  show ?thesis
    using h1 h2 t [THEN conjunct1, rule_format, OF h1] t [THEN conjunct2, rule_format, OF h2]
    by simp
qed

text \<open>
  C6, as the code has it. The on-duration is the single-precision product of the period
  and \<open>ON_FRACTION\<close> truncated by the conversion to \<open>unsigned long\<close>, not rounded to the
  nearest integer: for every cadence computed from sensible tunables it is the integer
  part of three tenths of the period. Both variants.
\<close>

theorem on_duration_truncates:
  "(\<forall>cfg s r. tunables_ok cfg \<longrightarrow>
      uint (onMs (computePatternFromDistance cfg s r))
        = 3 * periodMs (computePatternFromDistance cfg s r) div 10)
   \<and> (\<forall>s r. uint (fst (onOffSplit ON_FRACTION_2 (fst (cadence_2 s r))))
        = 3 * fst (cadence_2 s r) div 10)"
proof -
  have one: "uint (onMs (computePatternFromDistance cfg s r))
        = 3 * periodMs (computePatternFromDistance cfg s r) div 10"
    if ok: "tunables_ok cfg" for cfg s r
  proof -
    have "0 \<le> MIN_PERIOD_MS cfg" "MAX_PERIOD_MS cfg \<le> 32767"
      using ok by (simp_all add: tunables_ok_def)
    then have "0 \<le> periodMs (computePatternFromDistance cfg s r)"
      "periodMs (computePatternFromDistance cfg s r) \<le> 32767"
      using computed_period_range [OF ok, of s r] by linarith+
    then show ?thesis by (simp only: computed_split split_values)
  qed
  have two: "uint (fst (onOffSplit ON_FRACTION_2 (fst (cadence_2 s r))))
        = 3 * fst (cadence_2 s r) div 10" for s r
    using cadence_2_range [of s r] by (simp add: ON_FRACTION_2_eq split_values)
  show ?thesis using one two by blast
qed

theorem on_duration_truncates_witness:
  "tunables_ok tunables_2
   \<and> periodMs (computePatternFromDistance tunables_2 151 True) = 113
   \<and> uint (onMs (computePatternFromDistance tunables_2 151 True)) = 33"
proof -
  have ok: "tunables_ok tunables_2" by (simp add: tunables_ok_def tunables_2_def)
  have p: "periodMs (computePatternFromDistance tunables_2 151 True) = 113" by code_simp
  show ?thesis
    using ok p on_duration_truncates [THEN conjunct1, rule_format, OF ok, of 151 True] by simp
qed

text \<open>
  C6 as stated fails: at a smoothed distance of 151 mm the second variant's constants
  give a period of 113 ms, whose on-duration is 33 ms, while 113 times 0.30 rounded to
  the nearest integer is 34.
\<close>

theorem on_duration_round_counterexample:
  "periodMs (computePatternFromDistance tunables_2 151 True) = 113
   \<and> uint (onMs (computePatternFromDistance tunables_2 151 True)) = 33
   \<and> round (rat_of_int 113 * ON_FRACTION) = 34
   \<and> round (rat_of_int 113 * (3 / 10)) = 34
   \<and> uint (onMs (computePatternFromDistance tunables_2 151 True))
       \<noteq> round (rat_of_int (periodMs (computePatternFromDistance tunables_2 151 True)) * ON_FRACTION)"
  by code_simp

text \<open>
  C7. For every cadence computed from sensible tunables the on-duration and the
  off-duration add up to the period, as integers and without wrap-around; a period of
  111 ms splits into 33 ms on and 78 ms off. Both variants.
\<close>

theorem on_plus_off_is_period:
  "(\<forall>cfg s r. tunables_ok cfg \<longrightarrow>
      uint (onMs (computePatternFromDistance cfg s r))
        + uint (offMs (computePatternFromDistance cfg s r))
        = periodMs (computePatternFromDistance cfg s r))
   \<and> (\<forall>s r. uint (fst (onOffSplit ON_FRACTION_2 (fst (cadence_2 s r))))
        + uint (snd (onOffSplit ON_FRACTION_2 (fst (cadence_2 s r))))
        = fst (cadence_2 s r))
   \<and> onOffSplit ON_FRACTION 111 = (33, 78) \<and> onOffSplit ON_FRACTION_2 111 = (33, 78)"
proof -
  have one: "uint (onMs (computePatternFromDistance cfg s r))
        + uint (offMs (computePatternFromDistance cfg s r))
        = periodMs (computePatternFromDistance cfg s r)"
    if ok: "tunables_ok cfg" for cfg s r
  proof -
    have "0 \<le> MIN_PERIOD_MS cfg" "MAX_PERIOD_MS cfg \<le> 32767"
      using ok by (simp_all add: tunables_ok_def)
    then have "0 \<le> periodMs (computePatternFromDistance cfg s r)"
      "periodMs (computePatternFromDistance cfg s r) \<le> 32767"
      using computed_period_range [OF ok, of s r] by linarith+
    then show ?thesis by (simp only: computed_split split_values)
  qed
  have two: "uint (fst (onOffSplit ON_FRACTION_2 (fst (cadence_2 s r))))
        + uint (snd (onOffSplit ON_FRACTION_2 (fst (cadence_2 s r))))
        = fst (cadence_2 s r)" for s r
    using cadence_2_range [of s r] by (simp add: ON_FRACTION_2_eq split_values)
  have three: "onOffSplit ON_FRACTION 111 = (33, 78)"
    by (simp add: onOffSplit_floor)
  show ?thesis using one two three by (simp add: ON_FRACTION_2_eq)
qed

theorem on_plus_off_is_period_witness:
  "tunables_ok tunables_2
   \<and> computePatternFromDistance tunables_2 151 True
       = \<lparr>periodMs = 113, toneHz = 1597, onMs = 33, offMs = 80\<rparr>
   \<and> uint (33 :: ulong) + uint (80 :: ulong) = 113"
proof -
  have ok: "tunables_ok tunables_2" by (simp add: tunables_ok_def tunables_2_def)
  have p: "computePatternFromDistance tunables_2 151 True
       = \<lparr>periodMs = 113, toneHz = 1597, onMs = 33, offMs = 80\<rparr>" by code_simp
  show ?thesis
    using ok p on_plus_off_is_period [THEN conjunct1, rule_format, OF ok, of 151 True] by simp
qed

subsection \<open>The output driver\<close>

lemma on_2_nonzero: "fst (onOffSplit ON_FRACTION_2 (fst (cadence_2 s r))) \<noteq> 0"
proof -
  have "uint (fst (onOffSplit ON_FRACTION_2 (fst (cadence_2 s r)))) = 3 * fst (cadence_2 s r) div 10"
    using cadence_2_range [of s r] by (simp add: ON_FRACTION_2_eq split_values)
  moreover have "33 \<le> 3 * fst (cadence_2 s r) div 10" using cadence_2_range(1) [of s r] by linarith
  ultimately show ?thesis by auto
qed

lemma drive_2_driveOutputs:
  assumes "fst (onOffSplit ON_FRACTION_2 period) \<noteq> 0"
  shows "drive_2 r period tone s now =
           driveOutputs r \<lparr>periodMs = period, toneHz = tone,
               onMs = fst (onOffSplit ON_FRACTION_2 period),
               offMs = snd (onOffSplit ON_FRACTION_2 period)\<rparr> s now"
  using assms
  by (simp add: drive_2_def driveOutputs_def Let_def split: prod.split
        add: LED_RED_def LED_GREEN_def BUZZER_def PIN_LED_RED_def PIN_LED_GREEN_def PIN_BUZZER_def
        ) auto

lemma pins_2:
  "LED_RED = PIN_LED_RED" "LED_GREEN = PIN_LED_GREEN" "BUZZER = PIN_BUZZER"
  "TRIG = PIN_TRIG" "ECHO = PIN_ECHO"
  by (simp_all add: LED_RED_def LED_GREEN_def BUZZER_def TRIG_def ECHO_def PIN_LED_RED_def
        PIN_LED_GREEN_def PIN_BUZZER_def PIN_TRIG_def PIN_ECHO_def)

text \<open>
  C2. A tick with \<open>in_range\<close> false forces READY whatever the state was: the phase flag is
  cleared, the phase start is reset to the sentinel 0, the alarm LED and the buzzer are
  switched off and the ready LED on. The in-range tick that follows it therefore starts
  a fresh ON phase: ready LED off, alarm LED on, tone started at that tick's pitch,
  phase start set to that tick's clock. Both variants.
\<close>

theorem out_of_range_resets:
  "(\<forall>p s now. driveOutputs False p s now =
       (\<lparr>phaseStartMs = 0, phaseOn = False\<rparr>,
        [DigitalWrite PIN_LED_RED LOW, NoTone PIN_BUZZER, DigitalWrite PIN_LED_GREEN HIGH]))
   \<and> (\<forall>p p' s now now'. driveOutputs True p' (fst (driveOutputs False p s now)) now' =
       (\<lparr>phaseStartMs = now', phaseOn = True\<rparr>,
        [DigitalWrite PIN_LED_GREEN LOW, DigitalWrite PIN_LED_RED HIGH,
         Tone PIN_BUZZER (toneHz p')]))
   \<and> (\<forall>period tone s now. drive_2 False period tone s now =
       (\<lparr>phaseStartMs = 0, phaseOn = False\<rparr>,
        [DigitalWrite LED_RED LOW, NoTone BUZZER, DigitalWrite LED_GREEN HIGH]))
   \<and> (\<forall>period tone smoothed s now now'.
         drive_2 True (fst (cadence_2 smoothed True)) (snd (cadence_2 smoothed True))
           (fst (drive_2 False period tone s now)) now' =
       (\<lparr>phaseStartMs = now', phaseOn = True\<rparr>,
        [DigitalWrite LED_GREEN LOW, DigitalWrite LED_RED HIGH,
         Tone BUZZER (snd (cadence_2 smoothed True))]))"
proof -
  have a: "driveOutputs False p s now =
       (\<lparr>phaseStartMs = 0, phaseOn = False\<rparr>,
        [DigitalWrite PIN_LED_RED LOW, NoTone PIN_BUZZER, DigitalWrite PIN_LED_GREEN HIGH])"
    for p s now by (simp add: driveOutputs_def)
  have b: "driveOutputs True p' (fst (driveOutputs False p s now)) now' =
       (\<lparr>phaseStartMs = now', phaseOn = True\<rparr>,
        [DigitalWrite PIN_LED_GREEN LOW, DigitalWrite PIN_LED_RED HIGH,
         Tone PIN_BUZZER (toneHz p')])"
    for p p' s now now' by (simp add: a) (simp add: driveOutputs_def)
  have c: "drive_2 False period tone s now =
       (\<lparr>phaseStartMs = 0, phaseOn = False\<rparr>,
        [DigitalWrite LED_RED LOW, NoTone BUZZER, DigitalWrite LED_GREEN HIGH])"
    for period tone s now by (simp add: drive_2_def)
  have d: "drive_2 True (fst (cadence_2 smoothed True)) (snd (cadence_2 smoothed True))
           (fst (drive_2 False period tone s now)) now' =
       (\<lparr>phaseStartMs = now', phaseOn = True\<rparr>,
        [DigitalWrite LED_GREEN LOW, DigitalWrite LED_RED HIGH,
         Tone BUZZER (snd (cadence_2 smoothed True))])"
    for period tone smoothed s now now'
    by (simp add: c drive_2_driveOutputs [OF on_2_nonzero]) (simp add: driveOutputs_def pins_2)
  show ?thesis using a b c d by blast
qed

theorem out_of_range_resets_witness:
  "driveOutputs True (computePatternFromDistance tunables_2 1500 True)
     (fst (driveOutputs False (computePatternFromDistance tunables_2 2000 False)
             \<lparr>phaseStartMs = 700, phaseOn = False\<rparr> 900)) 1000
   = (\<lparr>phaseStartMs = 1000, phaseOn = True\<rparr>,
      [DigitalWrite 3 LOW, DigitalWrite 4 HIGH, Tone 11 400])"
proof -
  have "toneHz (computePatternFromDistance tunables_2 1500 True) = 400" by code_simp
  then show ?thesis
    using out_of_range_resets [THEN conjunct2, THEN conjunct1, rule_format,
      of "computePatternFromDistance tunables_2 1500 True"
         "computePatternFromDistance tunables_2 2000 False"
         "\<lparr>phaseStartMs = 700, phaseOn = False\<rparr>" 900 1000]
    by (simp add: PIN_LED_GREEN_def PIN_LED_RED_def PIN_BUZZER_def)
qed

text \<open>
  C8. In the ON phase of the alarm (\<open>in_range\<close> true, phase flag set, phase start not the
  sentinel), a tick whose elapsed time \<open>now - phase_start\<close> equals the on-duration
  switches to the OFF phase: the flag is cleared, the phase start becomes \<open>now\<close>, the
  alarm LED is switched off and the tone stopped. Both variants.
\<close>

theorem on_phase_ends_at_equality:
  "(\<forall>p s now. phaseStartMs s \<noteq> 0 \<and> phaseOn s \<and> now - phaseStartMs s = onMs p \<longrightarrow>
      driveOutputs True p s now =
        (\<lparr>phaseStartMs = now, phaseOn = False\<rparr>,
         [DigitalWrite PIN_LED_GREEN LOW, DigitalWrite PIN_LED_RED LOW, NoTone PIN_BUZZER]))
   \<and> (\<forall>period tone s now. phaseStartMs s \<noteq> 0 \<and> phaseOn s
         \<and> now - phaseStartMs s = fst (onOffSplit ON_FRACTION_2 period) \<longrightarrow>
      drive_2 True period tone s now =
        (\<lparr>phaseStartMs = now, phaseOn = False\<rparr>,
         [DigitalWrite LED_GREEN LOW, DigitalWrite LED_RED LOW, NoTone BUZZER]))"
  by (simp add: driveOutputs_def drive_2_def Let_def split: prod.split)

theorem on_phase_ends_at_equality_witness:
  "phaseStartMs \<lparr>phaseStartMs = 1000, phaseOn = True\<rparr> \<noteq> 0
   \<and> phaseOn \<lparr>phaseStartMs = 1000, phaseOn = True\<rparr>
   \<and> (1480 :: ulong) - 1000 = onMs (computePatternFromDistance tunables_2 1500 True)
   \<and> driveOutputs True (computePatternFromDistance tunables_2 1500 True)
        \<lparr>phaseStartMs = 1000, phaseOn = True\<rparr> 1480
      = (\<lparr>phaseStartMs = 1480, phaseOn = False\<rparr>,
         [DigitalWrite 3 LOW, DigitalWrite 4 LOW, NoTone 11])"
proof -
  have h: "phaseStartMs \<lparr>phaseStartMs = 1000, phaseOn = True\<rparr> \<noteq> 0
     \<and> phaseOn \<lparr>phaseStartMs = 1000, phaseOn = True\<rparr>
     \<and> (1480 :: ulong) - phaseStartMs \<lparr>phaseStartMs = 1000, phaseOn = True\<rparr>
         = onMs (computePatternFromDistance tunables_2 1500 True)"
    by code_simp
  show ?thesis
    using h on_phase_ends_at_equality [THEN conjunct1, rule_format, OF h]
    by (simp add: PIN_LED_GREEN_def PIN_LED_RED_def PIN_BUZZER_def)
qed

text \<open>
  C10. The sentinel for "no cycle started" is the timestamp 0. Every in-range tick that
  finds the stored phase start equal to 0 starts a fresh ON phase (phase start set to the
  clock, flag set, alarm LED on, tone on), whatever the phase flag was. So a phase that
  began when the clock read 0 is started again by the next in-range tick, at that tick's
  clock, without its duration being looked at. Both variants.
\<close>

theorem zero_phase_start_restarts:
  "(\<forall>p s now. phaseStartMs s = 0 \<longrightarrow>
      driveOutputs True p s now =
        (\<lparr>phaseStartMs = now, phaseOn = True\<rparr>,
         [DigitalWrite PIN_LED_GREEN LOW, DigitalWrite PIN_LED_RED HIGH,
          Tone PIN_BUZZER (toneHz p)]))
   \<and> (\<forall>p p' s now'. phaseStartMs s = 0 \<longrightarrow>
      driveOutputs True p' (fst (driveOutputs True p s 0)) now' =
        (\<lparr>phaseStartMs = now', phaseOn = True\<rparr>,
         [DigitalWrite PIN_LED_GREEN LOW, DigitalWrite PIN_LED_RED HIGH,
          Tone PIN_BUZZER (toneHz p')]))
   \<and> (\<forall>smoothed s now. phaseStartMs s = 0 \<longrightarrow>
      drive_2 True (fst (cadence_2 smoothed True)) (snd (cadence_2 smoothed True)) s now =
        (\<lparr>phaseStartMs = now, phaseOn = True\<rparr>,
         [DigitalWrite LED_GREEN LOW, DigitalWrite LED_RED HIGH,
          Tone BUZZER (snd (cadence_2 smoothed True))]))"
proof -
  have a: "driveOutputs True p s now =
        (\<lparr>phaseStartMs = now, phaseOn = True\<rparr>,
         [DigitalWrite PIN_LED_GREEN LOW, DigitalWrite PIN_LED_RED HIGH,
          Tone PIN_BUZZER (toneHz p)])" if "phaseStartMs s = 0" for p s now
    using that by (simp add: driveOutputs_def)
  have b: "driveOutputs True p' (fst (driveOutputs True p s 0)) now' =
        (\<lparr>phaseStartMs = now', phaseOn = True\<rparr>,
         [DigitalWrite PIN_LED_GREEN LOW, DigitalWrite PIN_LED_RED HIGH,
          Tone PIN_BUZZER (toneHz p')])" if "phaseStartMs s = 0" for p p' s now'
    using that by (simp add: a)
  have c: "drive_2 True (fst (cadence_2 smoothed True)) (snd (cadence_2 smoothed True)) s now =
        (\<lparr>phaseStartMs = now, phaseOn = True\<rparr>,
         [DigitalWrite LED_GREEN LOW, DigitalWrite LED_RED HIGH,
          Tone BUZZER (snd (cadence_2 smoothed True))])" if "phaseStartMs s = 0" for smoothed s now
    using that by (simp add: drive_2_driveOutputs [OF on_2_nonzero] a pins_2)
  show ?thesis using a b c by blast
qed

theorem zero_phase_start_restarts_witness:
  "phaseStartMs \<lparr>phaseStartMs = 0, phaseOn = True\<rparr> = 0
   \<and> driveOutputs True (computePatternFromDistance tunables_2 1500 True)
        \<lparr>phaseStartMs = 0, phaseOn = True\<rparr> 30
      = (\<lparr>phaseStartMs = 30, phaseOn = True\<rparr>,
         [DigitalWrite 3 LOW, DigitalWrite 4 HIGH, Tone 11 400])"
proof -
  have h: "phaseStartMs \<lparr>phaseStartMs = 0, phaseOn = True\<rparr> = 0" by simp
  have t: "toneHz (computePatternFromDistance tunables_2 1500 True) = 400" by code_simp
  show ?thesis
    using h t zero_phase_start_restarts [THEN conjunct1, rule_format, OF h,
        of "computePatternFromDistance tunables_2 1500 True" 30]
    by (simp add: PIN_LED_GREEN_def PIN_LED_RED_def PIN_BUZZER_def)
qed

text \<open>
  C3, as the code has it. A tick in the ON or OFF phase compares the elapsed time with
  the on- or off-duration of the cadence computed on that same tick. The state keeps
  only the phase start and the phase flag, never a duration, so the duration that was
  in effect when the phase started plays no role: a phase that started at \<open>t0\<close> under
  one cadence ends at the first tick \<open>t1\<close> whose own on-duration is at most \<open>t1 - t0\<close>.
  A changed duration acts on the running phase at once. A tick that does not end the
  phase only keeps the ready LED off. Both variants.
\<close>

theorem phase_end_uses_current_cadence:
  "(\<forall>p s now. phaseStartMs s \<noteq> 0 \<longrightarrow>
      driveOutputs True p s now =
        (if phaseOn s then
           (if onMs p \<le> now - phaseStartMs s
            then (\<lparr>phaseStartMs = now, phaseOn = False\<rparr>,
                  [DigitalWrite PIN_LED_GREEN LOW, DigitalWrite PIN_LED_RED LOW, NoTone PIN_BUZZER])
            else (s, [DigitalWrite PIN_LED_GREEN LOW]))
         else
           (if offMs p \<le> now - phaseStartMs s
            then (\<lparr>phaseStartMs = now, phaseOn = True\<rparr>,
                  [DigitalWrite PIN_LED_GREEN LOW, DigitalWrite PIN_LED_RED HIGH,
                   Tone PIN_BUZZER (toneHz p)])
            else (s, [DigitalWrite PIN_LED_GREEN LOW]))))
   \<and> (\<forall>p0 p1 s t0 t1. phaseStartMs s = 0 \<and> t0 \<noteq> 0 \<longrightarrow>
      fst (driveOutputs True p1 (fst (driveOutputs True p0 s t0)) t1) =
        (if onMs p1 \<le> t1 - t0 then \<lparr>phaseStartMs = t1, phaseOn = False\<rparr>
         else \<lparr>phaseStartMs = t0, phaseOn = True\<rparr>))
   \<and> (\<forall>period tone s now. phaseStartMs s \<noteq> 0 \<longrightarrow>
      drive_2 True period tone s now =
        (if phaseOn s then
           (if fst (onOffSplit ON_FRACTION_2 period) \<le> now - phaseStartMs s
            then (\<lparr>phaseStartMs = now, phaseOn = False\<rparr>,
                  [DigitalWrite LED_GREEN LOW, DigitalWrite LED_RED LOW, NoTone BUZZER])
            else (s, [DigitalWrite LED_GREEN LOW]))
         else
           (if snd (onOffSplit ON_FRACTION_2 period) \<le> now - phaseStartMs s
            then (\<lparr>phaseStartMs = now, phaseOn = True\<rparr>,
                  [DigitalWrite LED_GREEN LOW, DigitalWrite LED_RED HIGH, Tone BUZZER tone])
            else (s, [DigitalWrite LED_GREEN LOW]))))"
  by (simp add: driveOutputs_def drive_2_def Let_def split: prod.split)

theorem phase_end_uses_current_cadence_witness:
  "phaseStartMs \<lparr>phaseStartMs = 1000, phaseOn = True\<rparr> \<noteq> 0
   \<and> onMs (computePatternFromDistance tunables_2 825 True) = 424
   \<and> driveOutputs True (computePatternFromDistance tunables_2 825 True)
        \<lparr>phaseStartMs = 1000, phaseOn = True\<rparr> 1450
      = (\<lparr>phaseStartMs = 1450, phaseOn = False\<rparr>,
         [DigitalWrite 3 LOW, DigitalWrite 4 LOW, NoTone 11])"
proof -
  have h: "phaseStartMs \<lparr>phaseStartMs = 1000, phaseOn = True\<rparr> \<noteq> 0" by simp
  have v: "onMs (computePatternFromDistance tunables_2 825 True) = 424" by code_simp
  show ?thesis
    using h v phase_end_uses_current_cadence [THEN conjunct1, rule_format, OF h,
        of "computePatternFromDistance tunables_2 825 True" 1450]
    by (simp add: PIN_LED_GREEN_def PIN_LED_RED_def PIN_BUZZER_def)
qed

text \<open>
  C3 as stated fails. With the second variant's constants an ON phase starts at clock
  1000 at the far boundary, where the on-duration is 480 ms. At clock 1100 the target is
  at the near boundary and the on-duration of that tick is 33 ms: the phase ends there,
  after 100 ms, although the duration in effect when it started had 380 ms left; with
  the cadence unchanged the same tick would have left the phase running. The same
  happens in a run of the loop from the initial globals: echoes of 8746, 875 and 875
  microseconds (1500, 150 and 150 mm) at clocks 1000, 1060 and 1120 smooth to 1500, 825
  and 150 mm, and the ON phase started at 1000 ends at 1120.
\<close>

theorem phase_threshold_counterexample:
  "onMs (computePatternFromDistance tunables_2 1500 True) = 480
   \<and> driveOutputs True (computePatternFromDistance tunables_2 1500 True)
        \<lparr>phaseStartMs = 0, phaseOn = False\<rparr> 1000
      = (\<lparr>phaseStartMs = 1000, phaseOn = True\<rparr>,
         [DigitalWrite 3 LOW, DigitalWrite 4 HIGH, Tone 11 400])
   \<and> (1100 :: ulong) - 1000 < onMs (computePatternFromDistance tunables_2 1500 True)
   \<and> onMs (computePatternFromDistance tunables_2 150 True) = 33
   \<and> driveOutputs True (computePatternFromDistance tunables_2 150 True)
        \<lparr>phaseStartMs = 1000, phaseOn = True\<rparr> 1100
      = (\<lparr>phaseStartMs = 1100, phaseOn = False\<rparr>,
         [DigitalWrite 3 LOW, DigitalWrite 4 LOW, NoTone 11])
   \<and> driveOutputs True (computePatternFromDistance tunables_2 1500 True)
        \<lparr>phaseStartMs = 1000, phaseOn = True\<rparr> 1100
      = (\<lparr>phaseStartMs = 1000, phaseOn = True\<rparr>, [DigitalWrite 3 LOW])
   \<and> pattern (fst (run tunables_2 initial_sketch [(8746, 1000)]))
        = \<lparr>phaseStartMs = 1000, phaseOn = True\<rparr>
   \<and> fst (run tunables_2 initial_sketch [(8746, 1000), (875, 1060), (875, 1120)])
        = \<lparr>distanceBuf = [1500, 150, 150], distanceIdx = 0,
           pattern = \<lparr>phaseStartMs = 1120, phaseOn = False\<rparr>\<rparr>"
  by code_simp

subsection \<open>The two variants\<close>

lemma readDistanceMm_eq: "readDistanceMm us = readDistanceMmOnce us"
  by (simp add: readDistanceMm_def readDistanceMmOnce_def pins_2)

lemma median3_eq: "median3 a b c = medianOf3_allowInvalid a b c"
  by (simp add: median3_def medianOf3_allowInvalid_def Let_def upt_rec numeral_3_eq_3)

lemma next_index:
  "uint (word_of_int ((uint (i :: 8 word) + 1) smod 3) :: 8 word) = (uint i + 1) smod 3"
proof -
  have "0 \<le> uint i" by simp
  moreover have "uint i < 256" using uint_bounded [of i] by simp
  ultimately have "(uint i + 1) smod 3 = (uint i + 1) mod 3"
    by (simp add: smod_int_alt_def signed_modulo_int_def sgn_if)
  moreover have "0 \<le> (uint i + 1) mod 3" "(uint i + 1) mod 3 < 3" by simp_all
  ultimately show ?thesis by (simp add: uint_word_of_int take_bit_int_eq_self)
qed

lemma split_2_eq:
  "onOffSplit ON_FRACTION_2 (periodMs (computePatternFromDistance tunables_2 s r))
     = (onMs (computePatternFromDistance tunables_2 s r),
        offMs (computePatternFromDistance tunables_2 s r))"
  by (simp add: ON_FRACTION_2_eq computed_split)

lemma loop_step:
  assumes "same_globals st st2"
  shows "snd (loop tunables_2 st us now) = snd (loop_2 st2 us now)
         \<and> same_globals (fst (loop tunables_2 st us now)) (fst (loop_2 st2 us now))"
proof -
  obtain mm io where r: "readDistanceMmOnce us = (mm, io)" by (cases "readDistanceMmOnce us")
  define buf where "buf = (last3 st2)[nat (idx st2) := mm]"
  define smoothed where "smoothed = medianOf3_allowInvalid (buf ! 0) (buf ! 1) (buf ! 2)"
  define inRange where "inRange = (smoothed \<ge> 0 \<and> smoothed \<le> 1500)"
  define p where "p = computePatternFromDistance tunables_2 smoothed inRange"
  have g: "distanceBuf st = last3 st2" "uint (distanceIdx st) = idx st2" "pattern st = phase st2"
    using assms by (simp_all add: same_globals_def)
  have far: "FAR_DISTANCE_MM tunables_2 = 1500" by (simp add: tunables_2_def)
  have u: "unat (distanceIdx st) = nat (idx st2)" using g(2) by (simp add: unat_eq_nat_uint)
  have c2: "cadence_2 smoothed inRange = (periodMs p, toneHz p)" by (simp add: cadence_2_eq p_def)
  have nz: "fst (onOffSplit ON_FRACTION_2 (periodMs p)) \<noteq> 0"
    using on_2_nonzero [of smoothed inRange] by (simp add: c2)
  have pp: "\<lparr>periodMs = periodMs p, toneHz = toneHz p,
             onMs = fst (onOffSplit ON_FRACTION_2 (periodMs p)),
             offMs = snd (onOffSplit ON_FRACTION_2 (periodMs p))\<rparr> = p"
    by (simp add: p_def split_2_eq)
  have d: "drive_2 inRange (periodMs p) (toneHz p) (phase st2) now
             = driveOutputs inRange p (phase st2) now"
    using drive_2_driveOutputs [OF nz, of inRange "toneHz p" "phase st2" now] by (simp only: pp)
  obtain s' io2 where dr: "driveOutputs inRange p (phase st2) now = (s', io2)"
    by (cases "driveOutputs inRange p (phase st2) now")
  have l1: "loop tunables_2 st us now =
      (st\<lparr>distanceBuf := buf, distanceIdx := word_of_int ((uint (distanceIdx st) + 1) smod 3),
           pattern := s'\<rparr>,
       io @ io2 @ logStatus smoothed inRange p @ [Delay 30])"
    using dr by (simp add: loop_def readAndSmoothDistanceMm_def r Let_def g u buf_def
        smoothed_def far inRange_def p_def)
  have l2: "loop_2 st2 us now =
      (st2\<lparr>last3 := buf, idx := (idx st2 + 1) smod 3, phase := s'\<rparr>,
       io @ io2 @ logStatus smoothed inRange p @ [Delay 30])"
    using dr c2 d by (simp add: loop_2_def readDistanceMm_eq r Let_def median3_eq buf_def
        smoothed_def FAR_MM_def inRange_def p_def logStatus_def)
  show ?thesis
    unfolding l1 l2 using next_index [of "distanceIdx st"] by (simp add: same_globals_def g)
qed

lemma run_steps:
  "same_globals st st2 \<Longrightarrow>
     snd (run tunables_2 st inputs) = snd (run_2 st2 inputs)
     \<and> same_globals (fst (run tunables_2 st inputs)) (fst (run_2 st2 inputs))"
proof (induction inputs arbitrary: st st2)
  case Nil
  then show ?case by simp
next
  case (Cons i inputs)
  obtain us now where i: "i = (us, now)" by (cases i)
  note step = loop_step [OF Cons.prems, of us now]
  note rest = Cons.IH [OF step [THEN conjunct2]]
  show ?case using step rest by (simp add: i split: prod.split) (metis fst_conv snd_conv)
qed

text \<open>
  C9. The first variant run with the constants of the second behaves as the second does.
  Started from their initial globals and fed the same echo widths and clock values, the
  two loops produce the same events in the same order (trigger pulses, LED and buzzer
  commands, status lines, delays) and end with the same globals; one pass of the loop
  from equal globals gives equal events and equal globals. The parts agree as well: the
  sampler, the smoother, the period and tone, and the on and off durations.
\<close>

theorem variants_equivalent:
  "(\<forall>inputs. snd (run tunables_2 initial_sketch inputs) = snd (run_2 initial_sketch_2 inputs)
       \<and> same_globals (fst (run tunables_2 initial_sketch inputs))
            (fst (run_2 initial_sketch_2 inputs)))
   \<and> (\<forall>st st2 us now. same_globals st st2 \<longrightarrow>
         snd (loop tunables_2 st us now) = snd (loop_2 st2 us now)
         \<and> same_globals (fst (loop tunables_2 st us now)) (fst (loop_2 st2 us now)))
   \<and> (\<forall>us. readDistanceMm us = readDistanceMmOnce us)
   \<and> (\<forall>a b c. median3 a b c = medianOf3_allowInvalid a b c)
   \<and> (\<forall>s r. cadence_2 s r = (periodMs (computePatternFromDistance tunables_2 s r),
                               toneHz (computePatternFromDistance tunables_2 s r))
         \<and> onOffSplit ON_FRACTION_2 (periodMs (computePatternFromDistance tunables_2 s r))
             = (onMs (computePatternFromDistance tunables_2 s r),
                offMs (computePatternFromDistance tunables_2 s r)))"
proof -
  have init: "same_globals initial_sketch initial_sketch_2"
    by (simp add: same_globals_def initial_sketch_def initial_sketch_2_def)
  show ?thesis
    using run_steps [OF init] loop_step readDistanceMm_eq median3_eq cadence_2_eq split_2_eq
    by blast
qed

theorem variants_equivalent_witness:
  "same_globals initial_sketch initial_sketch_2
   \<and> snd (loop tunables_2 initial_sketch 8746 1000) = snd (loop_2 initial_sketch_2 8746 1000)
   \<and> same_globals (fst (loop tunables_2 initial_sketch 8746 1000))
        (fst (loop_2 initial_sketch_2 8746 1000))
   \<and> loop_2 initial_sketch_2 8746 1000
      = (\<lparr>last3 = [1500, -1, -1], idx = 1, phase = \<lparr>phaseStartMs = 1000, phaseOn = True\<rparr>\<rparr>,
         [DigitalWrite 10 LOW, DelayMicroseconds 2, DigitalWrite 10 HIGH, DelayMicroseconds 10,
          DigitalWrite 10 LOW, PulseIn 9 HIGH 38000,
          DigitalWrite 3 LOW, DigitalWrite 4 HIGH, Tone 11 400,
          Print ''mm='', PrintInt 1500, Print ''  inRange='', PrintInt 1,
          Print ''  periodMs='', PrintInt 1600, Print ''  toneHz='', PrintlnInt 400, Delay 30])"
proof -
  have init: "same_globals initial_sketch initial_sketch_2"
    by (simp add: same_globals_def initial_sketch_def initial_sketch_2_def)
  have v: "loop_2 initial_sketch_2 8746 1000
      = (\<lparr>last3 = [1500, -1, -1], idx = 1, phase = \<lparr>phaseStartMs = 1000, phaseOn = True\<rparr>\<rparr>,
         [DigitalWrite 10 LOW, DelayMicroseconds 2, DigitalWrite 10 HIGH, DelayMicroseconds 10,
          DigitalWrite 10 LOW, PulseIn 9 HIGH 38000,
          DigitalWrite 3 LOW, DigitalWrite 4 HIGH, Tone 11 400,
          Print ''mm='', PrintInt 1500, Print ''  inRange='', PrintInt 1,
          Print ''  periodMs='', PrintInt 1600, Print ''  toneHz='', PrintlnInt 400, Delay 30])"
    by code_simp
  note t = variants_equivalent [THEN conjunct2, THEN conjunct1, rule_format, OF init, of 8746 1000]
  show ?thesis using init v t by (simp only: simp_thms)
qed

end
